theory Spec2Isabelle
  imports Complex_Main "HOL-Library.Sublist"
begin

section \<open>Interpreter (src/utils/brainfuck.ts, executeBrainfuck)\<close>

text \<open>
  Program text is a \<^typ>\<open>string\<close>: only the eight command characters are told apart,
  every other character is skipped by the \<open>switch\<close>.  Input and output strings are
  lists of UTF-16 code units, as \<open>charCodeAt\<close> and \<open>String.fromCharCode\<close> see them.
\<close>

type_synonym jsstring = "nat list"

text \<open>
  The local variables of \<open>executeBrainfuck\<close>.  \<open>memory\<close> is the array of 30000 cells,
  read and written only at \<open>pointer\<close>, which stays below 30000.  \<open>codePointer\<close> is
  \<open>None\<close> once it holds \<open>NaN\<close>, the value of \<open>undefined + 1\<close> after a lookup of a
  bracket that has no entry in the bracket map.
\<close>

record bf_state =
  memory :: "nat \<Rightarrow> nat"
  pointer :: nat
  codePointer :: "nat option"
  inputPointer :: nat
  "output" :: jsstring
  steps :: nat

definition memory_length :: nat where
  "memory_length = 30000"

definition bf_init :: bf_state where
  "bf_init = \<lparr> memory = (\<lambda>_. 0), pointer = 0, codePointer = Some 0,
               inputPointer = 0, output = [], steps = 0 \<rparr>"

text \<open>\<open>buildBracketMap\<close>: one pass with a stack of the open brackets seen so far.\<close>

fun buildBracketMap_loop ::
  "string \<Rightarrow> nat \<Rightarrow> nat list \<Rightarrow> (nat \<rightharpoonup> nat) \<Rightarrow> (nat \<rightharpoonup> nat)" where
  "buildBracketMap_loop [] i stack m = m"
| "buildBracketMap_loop (c # cs) i stack m =
     (if c = CHR ''['' then buildBracketMap_loop cs (i + 1) (i # stack) m
      else if c = CHR '']'' then
        (case stack of
           [] \<Rightarrow> buildBracketMap_loop cs (i + 1) stack m
         | start # rest \<Rightarrow> buildBracketMap_loop cs (i + 1) rest (m(start \<mapsto> i, i \<mapsto> start)))
      else buildBracketMap_loop cs (i + 1) stack m)"

definition buildBracketMap :: "string \<Rightarrow> (nat \<rightharpoonup> nat)" where
  "buildBracketMap prog = buildBracketMap_loop prog 0 [] Map.empty"

text \<open>
  One turn of the \<open>while\<close> loop: \<open>steps++\<close>, the \<open>switch\<close>, then \<open>codePointer++\<close>.
  It is only taken when \<open>codePointer < code.length\<close>.
\<close>

definition bf_command :: "jsstring \<Rightarrow> (nat \<rightharpoonup> nat) \<Rightarrow> char \<Rightarrow> nat \<Rightarrow> bf_state \<Rightarrow> bf_state" where
  "bf_command inp bracketMap command cp s =
     (let p = pointer s; cell = memory s p in
      if command = CHR ''>'' then s\<lparr>pointer := (p + 1) mod memory_length\<rparr>
      else if command = CHR ''<'' then s\<lparr>pointer := (p + memory_length - 1) mod memory_length\<rparr>
      else if command = CHR ''+'' then s\<lparr>memory := (memory s)(p := (cell + 1) mod 256)\<rparr>
      else if command = CHR ''-'' then s\<lparr>memory := (memory s)(p := (cell + 256 - 1) mod 256)\<rparr>
      else if command = CHR ''.'' then s\<lparr>output := output s @ [cell mod 65536]\<rparr>
      else if command = CHR '','' then
        (if inputPointer s < length inp
         then s\<lparr>memory := (memory s)(p := inp ! inputPointer s),
                 inputPointer := inputPointer s + 1\<rparr>
         else s\<lparr>memory := (memory s)(p := 0)\<rparr>)
      else if command = CHR ''['' then
        (if cell = 0 then s\<lparr>codePointer := bracketMap cp\<rparr> else s)
      else if command = CHR '']'' then
        (if cell \<noteq> 0 then s\<lparr>codePointer := bracketMap cp\<rparr> else s)
      else s)"

definition bf_step :: "string \<Rightarrow> jsstring \<Rightarrow> (nat \<rightharpoonup> nat) \<Rightarrow> bf_state \<Rightarrow> bf_state" where
  "bf_step prog inp bracketMap s =
     (case codePointer s of
        None \<Rightarrow> s
      | Some cp \<Rightarrow>
          (let s' = bf_command inp bracketMap (prog ! cp) cp (s\<lparr>steps := steps s + 1\<rparr>)
           in s'\<lparr>codePointer := map_option Suc (codePointer s')\<rparr>))"

text \<open>The loop condition \<open>codePointer < code.length && steps < maxSteps\<close>; a comparison
  with \<open>NaN\<close> is false.  The step budget \<open>maxSteps\<close> is a natural number.\<close>

definition bf_running :: "string \<Rightarrow> nat \<Rightarrow> bf_state \<Rightarrow> bool" where
  "bf_running prog maxSteps s =
     ((case codePointer s of None \<Rightarrow> False | Some cp \<Rightarrow> cp < length prog) \<and> steps s < maxSteps)"

lemma steps_bf_command [simp]: "steps (bf_command inp bm c cp s) = steps s"
  by (simp add: bf_command_def Let_def)

lemma steps_bf_step: "codePointer s \<noteq> None \<Longrightarrow> steps (bf_step prog inp bm s) = Suc (steps s)"
  by (auto simp: bf_step_def Let_def)

function bf_loop :: "string \<Rightarrow> jsstring \<Rightarrow> (nat \<rightharpoonup> nat) \<Rightarrow> nat \<Rightarrow> bf_state \<Rightarrow> bf_state" where
  "bf_loop prog inp bracketMap maxSteps s =
     (if bf_running prog maxSteps s
      then bf_loop prog inp bracketMap maxSteps (bf_step prog inp bracketMap s)
      else s)"
  by pat_completeness auto
termination
proof (relation "measure (\<lambda>(prog, inp, bm, maxSteps, s). maxSteps - steps s)")
  show "wf (measure (\<lambda>(prog, inp, bm, maxSteps, s). maxSteps - steps s))" by simp
next
  fix prog inp bracketMap maxSteps and s :: bf_state
  assume "bf_running prog maxSteps s"
  then have "codePointer s \<noteq> None" "steps s < maxSteps"
    by (auto simp: bf_running_def split: option.splits)
  then show "((prog, inp, bracketMap, maxSteps, bf_step prog inp bracketMap s),
              (prog, inp, bracketMap, maxSteps, s))
             \<in> measure (\<lambda>(prog, inp, bm, maxSteps, s). maxSteps - steps s)"
    by (simp add: steps_bf_step)
qed

declare bf_loop.simps [simp del]

definition bf_run :: "string \<Rightarrow> jsstring \<Rightarrow> nat \<Rightarrow> bf_state" where
  "bf_run prog inp maxSteps = bf_loop prog inp (buildBracketMap prog) maxSteps bf_init"

definition executeBrainfuck :: "string \<Rightarrow> jsstring \<Rightarrow> nat \<Rightarrow> jsstring" where
  "executeBrainfuck prog inp maxSteps = output (bf_run prog inp maxSteps)"

section \<open>The random source\<close>

text \<open>
  \<open>Math.random()\<close> returns a number that is at least 0 and less than 1.  The draws of a
  run are a sequence of such numbers, read at a position that every call advances by
  one: each function below that draws takes the position \<open>k\<close> of its first draw and
  returns the position after its last one.
\<close>

typedef unit_interval = "{x::real. 0 \<le> x \<and> x < 1}"
  by (rule exI [of _ 0]) simp

type_synonym rng = "nat \<Rightarrow> unit_interval"

definition Math_random :: "rng \<Rightarrow> nat \<Rightarrow> real" where
  "Math_random rnd k = Rep_unit_interval (rnd k)"

text \<open>\<open>Math.floor(Math.random() * n)\<close>\<close>

definition floor_random :: "rng \<Rightarrow> nat \<Rightarrow> int \<Rightarrow> int" where
  "floor_random rnd k n = \<lfloor>Math_random rnd k * of_int n\<rfloor>"

section \<open>Program generation, mutation and crossover (src/utils/brainfuck.ts)\<close>

definition commands :: string where
  "commands = ''><+-.,[]''"

text \<open>\<open>commands[Math.floor(Math.random() * commands.length)]\<close>\<close>

definition random_command :: "rng \<Rightarrow> nat \<Rightarrow> char" where
  "random_command rnd k = commands ! nat (floor_random rnd k (int (length commands)))"

text \<open>\<open>s.slice(a, b)\<close> for \<open>0 \<le> a\<close> and \<open>0 \<le> b \<le> s.length\<close>\<close>

definition slice :: "string \<Rightarrow> nat \<Rightarrow> nat \<Rightarrow> string" where
  "slice s a b = take (b - a) (drop a s)"

subsection \<open>generateRandomProgram\<close>

text \<open>The \<open>for\<close> loop, with the number of turns left as first counter.  \<open>bracketDepth\<close> is
  decremented only after a \<open>]\<close> was drawn, which happens only at a positive depth.\<close>

fun generate_loop :: "rng \<Rightarrow> nat \<Rightarrow> string \<Rightarrow> nat \<Rightarrow> nat \<Rightarrow> string \<times> nat \<times> nat" where
  "generate_loop rnd 0 program bracketDepth k = (program, bracketDepth, k)"
| "generate_loop rnd (Suc n) program bracketDepth k =
     (let availableCommands =
            (if bracketDepth = 0 then filter (\<lambda>cmd. cmd \<noteq> CHR '']'') commands else commands);
          command = availableCommands ! nat (floor_random rnd k (int (length availableCommands)))
      in generate_loop rnd n (program @ [command])
           (if command = CHR ''['' then bracketDepth + 1
            else if command = CHR '']'' then bracketDepth - 1
            else bracketDepth)
           (k + 1))"

text \<open>\<open>while (bracketDepth > 0 && program.length < maxLength)\<close>\<close>

fun close_brackets :: "string \<Rightarrow> nat \<Rightarrow> nat \<Rightarrow> string" where
  "close_brackets program 0 maxLength = program"
| "close_brackets program (Suc d) maxLength =
     (if length program < maxLength then close_brackets (program @ '']'') d maxLength
      else program)"

definition generateRandomProgram :: "rng \<Rightarrow> int \<Rightarrow> nat \<Rightarrow> nat \<Rightarrow> string \<times> nat" where
  "generateRandomProgram rnd len maxLength k =
     (case generate_loop rnd (nat len) [] 0 k of
        (program, bracketDepth, k') \<Rightarrow>
          (let closed = close_brackets program bracketDepth maxLength
           in (if length closed > maxLength then take maxLength closed else closed, k')))"

subsection \<open>mutateProgram\<close>

text \<open>\<open>n\<close> turns of \<open>mutated += commands[Math.floor(Math.random() * commands.length)]\<close>\<close>

fun random_commands :: "rng \<Rightarrow> nat \<Rightarrow> nat \<Rightarrow> string \<times> nat" where
  "random_commands rnd 0 k = ([], k)"
| "random_commands rnd (Suc n) k =
     (case random_commands rnd n (k + 1) of (cs, k') \<Rightarrow> (random_command rnd k # cs, k'))"

text \<open>
  The pass over the symbols of the program.  The list argument is the part of the
  program from index \<open>i\<close> on, so \<open>i + 1 < program.length\<close> says that its tail is not
  empty, and the extra \<open>i++\<close> of the shrink case drops the head of that tail.
\<close>

function mutate_symbols :: "rng \<Rightarrow> real \<Rightarrow> string \<Rightarrow> string \<Rightarrow> nat \<Rightarrow> string \<times> nat" where
  "mutate_symbols rnd rate [] mutated k = (mutated, k)"
| "mutate_symbols rnd rate (c # rest) mutated k =
     (if Math_random rnd k < rate then
        (let mutationType = Math_random rnd (k + 1) in
         if mutationType < 0.4 then
           mutate_symbols rnd rate rest (mutated @ [random_command rnd (k + 2)]) (k + 3)
         else if mutationType < 0.7 then
           (let ins = (if Math_random rnd (k + 2) < 0.7
                       then random_commands rnd 1 (k + 3)
                       else random_commands rnd (nat (floor_random rnd (k + 3) 3 + 2)) (k + 4))
            in mutate_symbols rnd rate rest (mutated @ [c] @ fst ins) (snd ins))
         else
           (if Math_random rnd (k + 2) < 0.3 \<and> rest \<noteq> []
            then mutate_symbols rnd rate (drop 1 rest) mutated (k + 3)
            else mutate_symbols rnd rate rest mutated (k + 3)))
      else mutate_symbols rnd rate rest (mutated @ [c]) (k + 1))"
  by pat_completeness auto
termination
  by (relation "measure (\<lambda>(rnd, rate, program, mutated, k). length program)") auto

text \<open>\<open>for (let i = 0; i < growthSize && mutated.length < maxLength; i++)\<close>, prepending\<close>

fun prepend_loop :: "rng \<Rightarrow> nat \<Rightarrow> nat \<Rightarrow> string \<Rightarrow> nat \<Rightarrow> string \<times> nat" where
  "prepend_loop rnd 0 maxLength mutated k = (mutated, k)"
| "prepend_loop rnd (Suc n) maxLength mutated k =
     (if length mutated < maxLength
      then prepend_loop rnd n maxLength (random_command rnd k # mutated) (k + 1)
      else (mutated, k))"

text \<open>the same loop, appending\<close>

fun append_loop :: "rng \<Rightarrow> nat \<Rightarrow> nat \<Rightarrow> string \<Rightarrow> nat \<Rightarrow> string \<times> nat" where
  "append_loop rnd 0 maxLength mutated k = (mutated, k)"
| "append_loop rnd (Suc n) maxLength mutated k =
     (if length mutated < maxLength
      then append_loop rnd n maxLength (mutated @ [random_command rnd k]) (k + 1)
      else (mutated, k))"

definition mutate_growth :: "rng \<Rightarrow> real \<Rightarrow> nat \<Rightarrow> string \<Rightarrow> nat \<Rightarrow> string \<times> nat" where
  "mutate_growth rnd rate maxLength mutated k =
     (if Math_random rnd k < rate * 0.5 \<and> length mutated < maxLength then
        (let growthType = Math_random rnd (k + 1);
             maxGrowth = min 5 (int maxLength - int (length mutated));
             growthSize = floor_random rnd (k + 2) maxGrowth + 1
         in if growthType < 0.5
            then prepend_loop rnd (nat growthSize) maxLength mutated (k + 3)
            else append_loop rnd (nat growthSize) maxLength mutated (k + 3))
      else (mutated, k + 1))"

definition mutate_shrink :: "rng \<Rightarrow> real \<Rightarrow> string \<Rightarrow> nat \<Rightarrow> string \<times> nat" where
  "mutate_shrink rnd rate mutated k =
     (if Math_random rnd k < rate * 0.3 \<and> length mutated > 3 then
        (let segmentStart = floor_random rnd (k + 1) (int (length mutated));
             segmentLength =
               floor_random rnd (k + 2) (min (int (length mutated) - segmentStart) 5) + 1
         in (slice mutated 0 (nat segmentStart)
               @ drop (nat (segmentStart + segmentLength)) mutated, k + 3))
      else (mutated, k + 1))"

definition mutateProgram :: "rng \<Rightarrow> string \<Rightarrow> real \<Rightarrow> nat \<Rightarrow> nat \<Rightarrow> string \<times> nat" where
  "mutateProgram rnd program mutationRate maxLength k =
     (case mutate_symbols rnd mutationRate program [] k of (m1, k1) \<Rightarrow>
      case mutate_growth rnd mutationRate maxLength m1 k1 of (m2, k2) \<Rightarrow>
      case mutate_shrink rnd mutationRate m2 k2 of (m3, k3) \<Rightarrow>
        (let m4 = (if length m3 > maxLength then take maxLength m3 else m3)
         in (if m4 = [] then ''+'' else m4, k3)))"

subsection \<open>crossoverPrograms\<close>

lemma Math_random_bounds: "0 \<le> Math_random rnd k" "Math_random rnd k < 1"
  using Rep_unit_interval [of "rnd k"] by (simp_all add: Math_random_def)

lemma floor_random_nonneg: "0 \<le> n \<Longrightarrow> 0 \<le> floor_random rnd k n"
  by (simp add: floor_random_def Math_random_bounds)

text \<open>The value of \<open>useFirst\<close> at the end of a turn of the loop of \<open>interleavePrograms\<close>:
  flipped, then forced by an exhausted program.\<close>

definition next_useFirst :: "string \<Rightarrow> string \<Rightarrow> nat \<Rightarrow> nat \<Rightarrow> bool \<Rightarrow> bool" where
  "next_useFirst prog1 prog2 i1 i2 useFirst =
     (if i2 \<ge> length prog2 then True
      else if i1 \<ge> length prog1 then False
      else \<not> useFirst)"

function interleave_loop ::
  "rng \<Rightarrow> string \<Rightarrow> string \<Rightarrow> string \<Rightarrow> nat \<Rightarrow> nat \<Rightarrow> bool \<Rightarrow> nat \<Rightarrow> string \<times> nat" where
  "interleave_loop rnd prog1 prog2 result i1 i2 useFirst k =
     (if i1 < length prog1 \<or> i2 < length prog2 then
        (let segmentLength = nat (floor_random rnd k 5 + 1) in
         if useFirst \<and> i1 < length prog1 then
           (let e = min (i1 + segmentLength) (length prog1)
            in interleave_loop rnd prog1 prog2 (result @ slice prog1 i1 e) e i2
                 (next_useFirst prog1 prog2 e i2 useFirst) (k + 1))
         else if \<not> useFirst \<and> i2 < length prog2 then
           (let e = min (i2 + segmentLength) (length prog2)
            in interleave_loop rnd prog1 prog2 (result @ slice prog2 i2 e) i1 e
                 (next_useFirst prog1 prog2 i1 e useFirst) (k + 1))
         else interleave_loop rnd prog1 prog2 result i1 i2
                (next_useFirst prog1 prog2 i1 i2 useFirst) (k + 1))
      else (result, k))"
  by pat_completeness auto
termination
proof (relation "measures
         [\<lambda>(rnd, prog1, prog2, result, i1, i2, useFirst, k).
            (length prog1 - i1) + (length prog2 - i2),
          \<lambda>(rnd, prog1, prog2, result, i1, i2, useFirst, k).
            (if (useFirst \<and> i1 \<ge> length prog1) \<or> (\<not> useFirst \<and> i2 \<ge> length prog2)
             then 1 else 0)]",
       goal_cases)
  case 1
  show ?case by simp
next
  case (2 rnd prog1 prog2 result i1 i2 useFirst k segmentLength e)
  have "0 < segmentLength" using 2(2) floor_random_nonneg [of 5 rnd k] by simp
  with 2(3,4) have "i1 < e" "e \<le> length prog1" by simp_all
  then have less: "length prog1 - e + (length prog2 - i2) < length prog1 - i1 + (length prog2 - i2)"
    by linarith
  show ?case by (rule measures_less) (simp only: prod.case less)
next
  case (3 rnd prog1 prog2 result i1 i2 useFirst k segmentLength e)
  have "0 < segmentLength" using 3(2) floor_random_nonneg [of 5 rnd k] by simp
  with 3(4,5) have "i2 < e" "e \<le> length prog2" by simp_all
  then have less: "length prog1 - i1 + (length prog2 - e) < length prog1 - i1 + (length prog2 - i2)"
    by linarith
  show ?case by (rule measures_less) (simp only: prod.case less)
next
  case (4 rnd prog1 prog2 result i1 i2 useFirst k segmentLength)
  from 4(1,3,4) have stalled:
    "(useFirst \<and> i1 \<ge> length prog1) \<or> (\<not> useFirst \<and> i2 \<ge> length prog2)"
    by auto
  from 4(1,3,4) have moved:
    "\<not> ((next_useFirst prog1 prog2 i1 i2 useFirst \<and> i1 \<ge> length prog1)
        \<or> (\<not> next_useFirst prog1 prog2 i1 i2 useFirst \<and> i2 \<ge> length prog2))"
    by (auto simp: next_useFirst_def)
  show ?case
  proof (rule measures_lesseq)
    show "(case (rnd, prog1, prog2, result, i1, i2, next_useFirst prog1 prog2 i1 i2 useFirst, k + 1) of
            (rnd, prog1, prog2, result, i1, i2, useFirst, k) \<Rightarrow>
              length prog1 - i1 + (length prog2 - i2))
          \<le> (case (rnd, prog1, prog2, result, i1, i2, useFirst, k) of
            (rnd, prog1, prog2, result, i1, i2, useFirst, k) \<Rightarrow>
              length prog1 - i1 + (length prog2 - i2))"
      by (simp only: prod.case order_refl)
  next
    show "((rnd, prog1, prog2, result, i1, i2, next_useFirst prog1 prog2 i1 i2 useFirst, k + 1),
           (rnd, prog1, prog2, result, i1, i2, useFirst, k))
          \<in> measures [\<lambda>(rnd, prog1, prog2, result, i1, i2, useFirst, k).
            (if (useFirst \<and> i1 \<ge> length prog1) \<or> (\<not> useFirst \<and> i2 \<ge> length prog2)
             then 1 else 0)]"
      by (rule measures_less) (simp only: prod.case stalled moved if_True if_False zero_less_one)
  qed
qed

declare interleave_loop.simps [simp del]

definition interleavePrograms :: "rng \<Rightarrow> string \<Rightarrow> string \<Rightarrow> nat \<Rightarrow> string \<times> nat" where
  "interleavePrograms rnd prog1 prog2 k =
     (case interleave_loop rnd prog1 prog2 [] 0 0 True k of
        (result, k') \<Rightarrow> (if result = [] then ''+'' else result, k'))"

text \<open>The loop of the uniform strategy; \<open>n\<close> is the number of turns left and \<open>i\<close> the index.\<close>

fun uniform_loop ::
  "rng \<Rightarrow> string \<Rightarrow> string \<Rightarrow> nat \<Rightarrow> nat \<Rightarrow> string \<Rightarrow> string \<Rightarrow> nat \<Rightarrow> string \<times> string \<times> nat" where
  "uniform_loop rnd parent1 parent2 0 i child1 child2 k = (child1, child2, k)"
| "uniform_loop rnd parent1 parent2 (Suc n) i child1 child2 k =
     (let char1 = (if i < length parent1 then [parent1 ! i] else []);
          char2 = (if i < length parent2 then [parent2 ! i] else [])
      in if Math_random rnd k < 0.5
         then uniform_loop rnd parent1 parent2 n (i + 1) (child1 @ char1) (child2 @ char2) (k + 1)
         else uniform_loop rnd parent1 parent2 n (i + 1) (child1 @ char2) (child2 @ char1) (k + 1))"

definition crossoverPrograms :: "rng \<Rightarrow> string \<Rightarrow> string \<Rightarrow> nat \<Rightarrow> (string \<times> string) \<times> nat" where
  "crossoverPrograms rnd parent1 parent2 k =
     (if length parent1 = 0 \<or> length parent2 = 0 then ((parent1, parent2), k)
      else
        (let crossoverType = Math_random rnd k in
         if crossoverType < 0.4 then
           (let point1 = nat (floor_random rnd (k + 1) (int (length parent1)));
                point2 = nat (floor_random rnd (k + 2) (int (length parent2)));
                child1 = slice parent1 0 point1 @ drop point2 parent2;
                child2 = slice parent2 0 point2 @ drop point1 parent1
            in ((child1, child2), k + 3))
         else if crossoverType < 0.7 then
           (let start1 = floor_random rnd (k + 1) (int (length parent1));
                end1 = min (start1 + floor_random rnd (k + 2) (int (length parent1) - start1))
                           (int (length parent1));
                start2 = floor_random rnd (k + 3) (int (length parent2));
                end2 = min (start2 + floor_random rnd (k + 4) (int (length parent2) - start2))
                           (int (length parent2));
                child1 = slice parent1 0 (nat start1) @ slice parent2 (nat start2) (nat end2)
                           @ drop (nat end1) parent1;
                child2 = slice parent2 0 (nat start2) @ slice parent1 (nat start1) (nat end1)
                           @ drop (nat end2) parent2
            in ((child1, child2), k + 5))
         else if crossoverType < 0.85 then
           (let mergeType = Math_random rnd (k + 1) in
            if mergeType < 0.5 then
              (case interleavePrograms rnd parent1 parent2 (k + 2) of (child1, k1) \<Rightarrow>
               case interleavePrograms rnd parent2 parent1 k1 of (child2, k2) \<Rightarrow>
                 ((child1, child2), k2))
            else
              (let child1 = (if Math_random rnd (k + 2) < 0.5
                             then parent1 @ parent2 else parent2 @ parent1);
                   child2 = (if Math_random rnd (k + 3) < 0.5
                             then parent2 @ parent1 else parent1 @ parent2)
               in ((child1, child2), k + 4)))
         else
           (case uniform_loop rnd parent1 parent2 (max (length parent1) (length parent2)) 0 [] []
                   (k + 1) of
              (child1, child2, k') \<Rightarrow>
                ((if child1 = [] then ''+'' else child1, if child2 = [] then ''+'' else child2), k'))))"

section \<open>The genetic algorithm (src/utils/genetic-algorithm.ts)\<close>

text \<open>
  The interfaces of \<open>types/brainfuck.ts\<close>.  The counts among the settings are natural
  numbers, the rates are numbers; numbers that the code computes are reals, the
  arithmetic of doubles being taken as exact.
\<close>

record TestCase =
  input :: jsstring
  expected :: jsstring

record GASettings =
  populationSize :: nat
  mutationRate :: real
  crossoverRate :: real
  elitism :: nat
  maxGenerations :: nat
  maxProgramLength :: nat

record Individual =
  code :: string
  fitness :: real
  accuracy :: real
  results :: "bool list"
  outputs :: "jsstring list"
  trainResults :: "bool list"
  testResults :: "bool list"
  trainAccuracy :: real
  testAccuracy :: real

text \<open>The fields of the class \<open>GeneticAlgorithm\<close>.\<close>

record GeneticAlgorithm =
  settings :: GASettings
  trainCases :: "TestCase list"
  testCases :: "TestCase list"
  population :: "Individual list"
  generation :: nat
  seedGenomes :: "string list"

datatype error = TypeError

definition constructor :: "GASettings \<Rightarrow> TestCase list \<Rightarrow> TestCase list \<Rightarrow> GeneticAlgorithm" where
  "constructor s train test =
     \<lparr> settings = s, trainCases = train, testCases = test, population = [], generation = 0,
       seedGenomes = [] \<rparr>"

subsection \<open>evaluateIndividual\<close>

text \<open>
  One of the two \<open>for\<close> loops over the cases, with the results, the outputs and the
  count of passed cases it builds.  \<open>executeBrainfuck\<close> throws nothing, so the \<open>catch\<close>
  branch is never taken.
\<close>

fun run_cases ::
  "string \<Rightarrow> TestCase list \<Rightarrow> bool list \<Rightarrow> jsstring list \<Rightarrow> nat
   \<Rightarrow> bool list \<times> jsstring list \<times> nat" where
  "run_cases prog [] res outs passedTests = (res, outs, passedTests)"
| "run_cases prog (testCase # rest) res outs passedTests =
     (let out = executeBrainfuck prog (input testCase) 10000;
          passed = (out = expected testCase)
      in run_cases prog rest (res @ [passed]) (outs @ [out])
           (if passed then passedTests + 1 else passedTests))"

definition evaluateIndividual :: "GeneticAlgorithm \<Rightarrow> string \<Rightarrow> Individual" where
  "evaluateIndividual ga prog =
     (case run_cases prog (trainCases ga) [] [] 0 of
        (trainRes, trainOutputs, passedTrainTests) \<Rightarrow>
     (case run_cases prog (testCases ga) [] [] 0 of
        (testRes, testOutputs, passedTestTests) \<Rightarrow>
     (let trainAcc = (if length (trainCases ga) > 0
                      then (real passedTrainTests / real (length (trainCases ga))) * 100
                      else 0);
          testAcc = (if length (testCases ga) > 0
                     then (real passedTestTests / real (length (testCases ga))) * 100
                     else 0);
          lengthPenalty = min (real (length prog) * 0.1) 5;
          fit = max 0 (trainAcc - lengthPenalty)
      in \<lparr> code = prog, fitness = fit, accuracy = trainAcc, results = trainRes,
           outputs = trainOutputs, trainResults = trainRes, testResults = testRes,
           trainAccuracy = trainAcc, testAccuracy = testAcc \<rparr>)))"

subsection \<open>tournamentSelection, sortPopulation, getBestIndividual, hasPerfectSolution\<close>

text \<open>\<open>this.population[i]\<close>, which is \<open>undefined\<close> outside the array\<close>

definition population_at :: "Individual list \<Rightarrow> int \<Rightarrow> Individual option" where
  "population_at pop i = (if 0 \<le> i \<and> i < int (length pop) then Some (pop ! nat i) else None)"

text \<open>The \<open>for\<close> loop of the tournament, \<open>n\<close> turns left.  Reading \<open>.fitness\<close> of
  \<open>undefined\<close> throws a \<open>TypeError\<close>.\<close>

fun tournament_loop ::
  "rng \<Rightarrow> Individual list \<Rightarrow> nat \<Rightarrow> Individual option \<Rightarrow> nat
   \<Rightarrow> error + (Individual option \<times> nat)" where
  "tournament_loop rnd pop 0 best k = Inr (best, k)"
| "tournament_loop rnd pop (Suc n) best k =
     (case population_at pop (floor_random rnd k (int (length pop))) of
        None \<Rightarrow> Inl TypeError
      | Some candidate \<Rightarrow>
          (case best of
             None \<Rightarrow> Inl TypeError
           | Some b \<Rightarrow>
               tournament_loop rnd pop n
                 (Some (if fitness candidate > fitness b then candidate else b)) (k + 1)))"

definition tournamentSelection ::
  "rng \<Rightarrow> GeneticAlgorithm \<Rightarrow> nat \<Rightarrow> error + (Individual option \<times> nat)" where
  "tournamentSelection rnd ga k =
     tournament_loop rnd (population ga) 2
       (population_at (population ga) (floor_random rnd k (int (length (population ga)))))
       (k + 1)"

text \<open>\<open>this.population.sort((a, b) => b.fitness - a.fitness)\<close>: a stable sort, the
  highest fitness first.\<close>

definition sortPopulation :: "Individual list \<Rightarrow> Individual list" where
  "sortPopulation pop = sort_key (\<lambda>ind. - fitness ind) pop"

definition getBestIndividual :: "GeneticAlgorithm \<Rightarrow> Individual option" where
  "getBestIndividual ga = (if length (population ga) > 0 then Some (population ga ! 0) else None)"

definition hasPerfectSolution :: "GeneticAlgorithm \<Rightarrow> bool" where
  "hasPerfectSolution ga =
     (case getBestIndividual ga of
        None \<Rightarrow> False
      | Some best \<Rightarrow>
          trainAccuracy best = 100 \<and> (length (testCases ga) = 0 \<or> testAccuracy best = 100))"

subsection \<open>initialize\<close>

text \<open>The loop over the seed genomes, with its \<open>break\<close> at 30 percent of the population
  size.\<close>

fun seed_loop ::
  "GeneticAlgorithm \<Rightarrow> string list \<Rightarrow> Individual list \<Rightarrow> string set \<Rightarrow> nat
   \<Rightarrow> Individual list \<times> string set" where
  "seed_loop ga [] pop uniqueCodes seededCount = (pop, uniqueCodes)"
| "seed_loop ga (seedCode # rest) pop uniqueCodes seededCount =
     (if int seededCount \<ge> \<lfloor>real (populationSize (settings ga)) * 0.3\<rfloor> then (pop, uniqueCodes)
      else if seedCode \<notin> uniqueCodes then
        seed_loop ga rest (pop @ [evaluateIndividual ga seedCode]) (insert seedCode uniqueCodes)
          (seededCount + 1)
      else seed_loop ga rest pop uniqueCodes seededCount)"

text \<open>The choice of \<open>programLength\<close> in the second loop of \<open>initialize\<close>: two draws.\<close>

definition initial_length :: "rng \<Rightarrow> GASettings \<Rightarrow> nat \<Rightarrow> int" where
  "initial_length rnd s k =
     (let lengthCategory = Math_random rnd k in
      if lengthCategory < 0.2 then floor_random rnd (k + 1) 11 + 5
      else if lengthCategory < 0.8 then floor_random rnd (k + 1) 25 + 16
      else (let maxLength = min (int (maxProgramLength s)) 100
            in floor_random rnd (k + 1) (maxLength - 40) + 41))"

text \<open>One turn of \<open>while (this.population.length < this.settings.populationSize)\<close>, on
  the population built so far, the set \<open>uniqueCodes\<close> and the position of the next draw.\<close>

definition initialize_step ::
  "rng \<Rightarrow> GeneticAlgorithm \<Rightarrow> Individual list \<times> string set \<times> nat
   \<Rightarrow> Individual list \<times> string set \<times> nat" where
  "initialize_step rnd ga x =
     (case x of (pop, uniqueCodes, k) \<Rightarrow>
      case generateRandomProgram rnd (initial_length rnd (settings ga) k)
             (maxProgramLength (settings ga)) (k + 2) of
        (c, k') \<Rightarrow>
          if c \<notin> uniqueCodes
          then (pop @ [evaluateIndividual ga c], insert c uniqueCodes, k')
          else (pop, uniqueCodes, k'))"

text \<open>The loop has no bound on its turns: \<open>None\<close> is the run that never leaves it.\<close>

partial_function (option) initialize_loop ::
  "rng \<Rightarrow> GeneticAlgorithm \<Rightarrow> Individual list \<times> string set \<times> nat
   \<Rightarrow> (Individual list \<times> string set \<times> nat) option" where
  "initialize_loop rnd ga x =
     (if length (fst x) < populationSize (settings ga)
      then initialize_loop rnd ga (initialize_step rnd ga x)
      else Some x)"

definition initialize :: "rng \<Rightarrow> GeneticAlgorithm \<Rightarrow> nat \<Rightarrow> (GeneticAlgorithm \<times> nat) option" where
  "initialize rnd ga k =
     (case seed_loop ga (seedGenomes ga) [] {} 0 of
        (seeded, uniqueCodes) \<Rightarrow>
          (case initialize_loop rnd ga (seeded, uniqueCodes, k) of
             None \<Rightarrow> None
           | Some (pop, uniqueCodes', k') \<Rightarrow>
               Some (ga\<lparr>population := sortPopulation pop, generation := 0\<rparr>, k')))"

subsection \<open>evolve\<close>

text \<open>The two guarded insertions of a child into \<open>newPopulation\<close>.\<close>

definition add_child ::
  "GeneticAlgorithm \<Rightarrow> string \<Rightarrow> Individual list \<times> string set \<Rightarrow> Individual list \<times> string set" where
  "add_child ga childCode x =
     (case x of (newPopulation, uniqueCodes) \<Rightarrow>
        if childCode \<notin> uniqueCodes
        then (newPopulation @ [evaluateIndividual ga childCode], insert childCode uniqueCodes)
        else (newPopulation, uniqueCodes))"

text \<open>The body of the offspring loop after \<open>attempts++\<close>.  A \<open>TypeError\<close> is thrown by
  \<open>parent.code\<close> or inside the tournament when the population holds no individual.\<close>

definition offspring_attempt ::
  "rng \<Rightarrow> GeneticAlgorithm \<Rightarrow> Individual list \<times> string set \<Rightarrow> nat
   \<Rightarrow> error + ((Individual list \<times> string set) \<times> nat)" where
  "offspring_attempt rnd ga x k =
     (case tournamentSelection rnd ga k of
        Inl e \<Rightarrow> Inl e
      | Inr (None, k1) \<Rightarrow> Inl TypeError
      | Inr (Some parent1, k1) \<Rightarrow>
     (case tournamentSelection rnd ga k1 of
        Inl e \<Rightarrow> Inl e
      | Inr (None, k2) \<Rightarrow> Inl TypeError
      | Inr (Some parent2, k2) \<Rightarrow>
     (let crossed = (if Math_random rnd k2 < crossoverRate (settings ga)
                     then crossoverPrograms rnd (code parent1) (code parent2) (k2 + 1)
                     else ((code parent1, code parent2), k2 + 1));
          mutated1 = mutateProgram rnd (fst (fst crossed)) (mutationRate (settings ga))
                       (maxProgramLength (settings ga)) (snd crossed);
          mutated2 = mutateProgram rnd (snd (fst crossed)) (mutationRate (settings ga))
                       (maxProgramLength (settings ga)) (snd mutated1);
          x1 = add_child ga (fst mutated1) x;
          x2 = (if length (fst x1) < populationSize (settings ga)
                then add_child ga (fst mutated2) x1 else x1)
      in Inr (x2, snd mutated2))))"

text \<open>\<open>while (newPopulation.length < populationSize && attempts < maxAttempts)\<close>\<close>

function offspring_loop ::
  "rng \<Rightarrow> GeneticAlgorithm \<Rightarrow> Individual list \<times> string set \<Rightarrow> nat \<Rightarrow> nat
   \<Rightarrow> error + ((Individual list \<times> string set) \<times> nat \<times> nat)" where
  "offspring_loop rnd ga x attempts k =
     (if length (fst x) < populationSize (settings ga)
         \<and> attempts < populationSize (settings ga) * 10
      then (case offspring_attempt rnd ga x k of
              Inl e \<Rightarrow> Inl e
            | Inr (x', k') \<Rightarrow> offspring_loop rnd ga x' (attempts + 1) k')
      else Inr (x, attempts, k))"
  by pat_completeness auto
termination
  by (relation "measure (\<lambda>(rnd, ga, x, attempts, k). populationSize (settings ga) * 10 - attempts)")
     auto

declare offspring_loop.simps [simp del]

text \<open>One turn of the second \<open>while\<close> loop, which fills the remaining slots.\<close>

definition fill_step ::
  "rng \<Rightarrow> GeneticAlgorithm \<Rightarrow> Individual list \<times> string set \<times> nat
   \<Rightarrow> Individual list \<times> string set \<times> nat" where
  "fill_step rnd ga x =
     (case x of (newPopulation, uniqueCodes, k) \<Rightarrow>
      (let programLength = floor_random rnd k (min (int (maxProgramLength (settings ga))) 50) + 5
       in case generateRandomProgram rnd programLength (maxProgramLength (settings ga)) (k + 1) of
            (c, k') \<Rightarrow>
              if c \<notin> uniqueCodes
              then (newPopulation @ [evaluateIndividual ga c], insert c uniqueCodes, k')
              else (newPopulation, uniqueCodes, k')))"

partial_function (option) fill_loop ::
  "rng \<Rightarrow> GeneticAlgorithm \<Rightarrow> Individual list \<times> string set \<times> nat
   \<Rightarrow> (Individual list \<times> string set \<times> nat) option" where
  "fill_loop rnd ga x =
     (if length (fst x) < populationSize (settings ga)
      then fill_loop rnd ga (fill_step rnd ga x)
      else Some x)"

text \<open>\<open>evolve\<close>: \<open>None\<close> when the fill loop never ends, \<open>Inl\<close> when a \<open>TypeError\<close> leaves
  the method, \<open>Inr\<close> with the new fields and the position of the next draw otherwise.\<close>

definition evolve ::
  "rng \<Rightarrow> GeneticAlgorithm \<Rightarrow> nat \<Rightarrow> (error + (GeneticAlgorithm \<times> nat)) option" where
  "evolve rnd ga k =
     (let elite = take (elitism (settings ga)) (population ga);
          uniqueCodes = set (map code elite)
      in case offspring_loop rnd ga (elite, uniqueCodes) 0 k of
           Inl e \<Rightarrow> Some (Inl e)
         | Inr ((offspring, uniqueCodes'), attempts, k1) \<Rightarrow>
             (case fill_loop rnd ga (offspring, uniqueCodes', k1) of
                None \<Rightarrow> None
              | Some (newPopulation, uniqueCodes'', k2) \<Rightarrow>
                  Some (Inr (ga\<lparr>population :=
                                  sortPopulation (take (populationSize (settings ga)) newPopulation),
                                generation := generation ga + 1\<rparr>, k2))))"

subsection \<open>The setters\<close>

definition updateSettings :: "GASettings \<Rightarrow> GeneticAlgorithm \<Rightarrow> GeneticAlgorithm" where
  "updateSettings s ga = ga\<lparr>settings := s\<rparr>"

definition updateTrainCases :: "TestCase list \<Rightarrow> GeneticAlgorithm \<Rightarrow> GeneticAlgorithm" where
  "updateTrainCases cases ga = ga\<lparr>trainCases := cases\<rparr>"

definition updateTestCases :: "TestCase list \<Rightarrow> GeneticAlgorithm \<Rightarrow> GeneticAlgorithm" where
  "updateTestCases cases ga = ga\<lparr>testCases := cases\<rparr>"

definition setSeedGenomes :: "string list \<Rightarrow> GeneticAlgorithm \<Rightarrow> GeneticAlgorithm" where
  "setSeedGenomes genomes ga = ga\<lparr>seedGenomes := genomes\<rparr>"

definition clearSeedGenomes :: "GeneticAlgorithm \<Rightarrow> GeneticAlgorithm" where
  "clearSeedGenomes ga = ga\<lparr>seedGenomes := []\<rparr>"

section \<open>Properties of populations\<close>

text \<open>The program strings of a population are pairwise distinct and all recorded in the
  set \<open>uniqueCodes\<close>.\<close>

definition unique_codes :: "Individual list \<Rightarrow> string set \<Rightarrow> bool" where
  "unique_codes pop uniqueCodes = (distinct (map code pop) \<and> code ` set pop \<subseteq> uniqueCodes)"

text \<open>Sorted by fitness, the highest first.\<close>

definition sorted_desc :: "Individual list \<Rightarrow> bool" where
  "sorted_desc pop = sorted_wrt (\<lambda>a b. fitness b \<le> fitness a) pop"

text \<open>
  The objects that a caller can get hold of: a fresh object, and every object that comes
  out of a public method.  Only calls that return are steps; the draws and their
  position are those of the moment of the call.
\<close>

inductive reachable :: "GeneticAlgorithm \<Rightarrow> bool" where
  new: "reachable (constructor s train test)"
| initialize: "reachable ga \<Longrightarrow> initialize rnd ga k = Some (ga', k') \<Longrightarrow> reachable ga'"
| evolve: "reachable ga \<Longrightarrow> evolve rnd ga k = Some (Inr (ga', k')) \<Longrightarrow> reachable ga'"
| updateSettings: "reachable ga \<Longrightarrow> reachable (updateSettings s ga)"
| updateTrainCases: "reachable ga \<Longrightarrow> reachable (updateTrainCases cases ga)"
| updateTestCases: "reachable ga \<Longrightarrow> reachable (updateTestCases cases ga)"
| setSeedGenomes: "reachable ga \<Longrightarrow> reachable (setSeedGenomes genomes ga)"
| clearSeedGenomes: "reachable ga \<Longrightarrow> reachable (clearSeedGenomes ga)"

section \<open>Sample inputs\<close>

text \<open>The random source whose draws are the values of \<open>f\<close>, for an \<open>f\<close> with values
  in the unit interval.\<close>

definition draws_of :: "(nat \<Rightarrow> real) \<Rightarrow> rng" where
  "draws_of f = (\<lambda>k. Abs_unit_interval (f k))"

text \<open>Nine draws of 0, then draws of \<open>1/2\<close>.\<close>

definition sample_draws :: rng where
  "sample_draws = draws_of (\<lambda>k. if k < 9 then 0 else 1 / 2)"

text \<open>Draws of 0 only.\<close>

definition zero_draws :: rng where
  "zero_draws = draws_of (\<lambda>k. 0)"

text \<open>Draws of 0 up to position 420, then draws of \<open>1/2\<close>.\<close>

definition exhaust_draws :: rng where
  "exhaust_draws = draws_of (\<lambda>k. if k < 421 then 0 else 1 / 2)"

definition sample_settings :: GASettings where
  "sample_settings = \<lparr> populationSize = 2, mutationRate = 0, crossoverRate = 0, elitism = 1,
                        maxGenerations = 10, maxProgramLength = 100 \<rparr>"

text \<open>One train case: input byte 1, no output expected.\<close>

definition sample_ga :: GeneticAlgorithm where
  "sample_ga = constructor sample_settings [\<lparr> input = [1], expected = [] \<rparr>] []"

text \<open>The individual that \<open>sample_ga\<close> makes of a program of five symbols that prints
  nothing: the train case passes, the length penalty is \<open>0.5\<close>.\<close>

definition sample_individual :: "string \<Rightarrow> Individual" where
  "sample_individual prog =
     \<lparr> code = prog, fitness = 99.5, accuracy = 100, results = [True], outputs = [[]],
       trainResults = [True], testResults = [], trainAccuracy = 100, testAccuracy = 0 \<rparr>"

text \<open>\<open>sample_ga\<close> after \<open>initialize\<close> with the draws \<open>sample_draws\<close>.\<close>

definition sample_generation :: GeneticAlgorithm where
  "sample_generation =
     sample_ga\<lparr>population := [sample_individual ''>>>>>'', sample_individual ''-----''],
               generation := 0\<rparr>"

text \<open>The default settings of the application, with programs of at most one symbol.\<close>

definition narrow_settings :: GASettings where
  "narrow_settings = \<lparr> populationSize = 50, mutationRate = 0.02, crossoverRate = 0.8,
                        elitism = 2, maxGenerations = 1000, maxProgramLength = 1 \<rparr>"

text \<open>The programs of at most one symbol: there are at most nine of them.\<close>

definition short_programs :: "string set" where
  "short_programs = {c. length c \<le> 1 \<and> set c \<subseteq> set commands}"

text \<open>While \<open>initialize\<close> runs with programs of at most one symbol, the population is
  no longer than the set of its programs, which are all short.\<close>

definition narrow_invariant ::
  "rng \<Rightarrow> GeneticAlgorithm \<Rightarrow> Individual list \<times> string set \<times> nat \<Rightarrow> bool" where
  "narrow_invariant rnd ga x =
     (maxProgramLength (settings ga) = 1 \<and> populationSize (settings ga) = 50
      \<and> fst (snd x) \<subseteq> short_programs \<and> length (fst x) \<le> card (fst (snd x)))"

section \<open>Facts about the interpreter\<close>

subsection \<open>The loop\<close>

lemma bf_loop_run:
  "bf_running prog M s \<Longrightarrow> bf_loop prog inp bm M s = bf_loop prog inp bm M (bf_step prog inp bm s)"
  by (subst bf_loop.simps) simp

lemma bf_loop_stop: "\<not> bf_running prog M s \<Longrightarrow> bf_loop prog inp bm M s = s"
  by (subst bf_loop.simps) simp

lemma pointer_bf_step:
  "pointer s < memory_length \<Longrightarrow> pointer (bf_step prog inp bm s) < memory_length"
  by (simp add: bf_step_def bf_command_def memory_length_def Let_def split: option.splits)

lemma bf_loop_final: "\<not> bf_running prog M (bf_loop prog inp bm M s)"
proof (induction prog inp bm M s rule: bf_loop.induct)
  case (1 prog inp bm M s)
  then show ?case
    by (cases "bf_running prog M s") (simp_all add: bf_loop_run bf_loop_stop)
qed

lemma bf_running_codePointer: "bf_running prog M s \<Longrightarrow> codePointer s \<noteq> None"
  by (auto simp: bf_running_def split: option.splits)

lemma bf_running_steps: "bf_running prog M s \<Longrightarrow> steps s < M"
  by (simp add: bf_running_def)

lemma bf_running_mono: "bf_running prog n s \<Longrightarrow> n \<le> M \<Longrightarrow> bf_running prog M s"
  by (auto simp: bf_running_def)

lemma bf_loop_steps_ge: "steps s \<le> steps (bf_loop prog inp bm M s)"
proof (induction prog inp bm M s rule: bf_loop.induct)
  case (1 prog inp bm M s)
  show ?case
  proof (cases "bf_running prog M s")
    case True
    then have "steps (bf_step prog inp bm s) = Suc (steps s)"
      by (simp add: steps_bf_step bf_running_codePointer)
    with 1[OF True] True show ?thesis by (simp add: bf_loop_run)
  next
    case False
    then show ?thesis by (simp add: bf_loop_stop)
  qed
qed

lemma bf_loop_steps_le: "steps s \<le> M \<Longrightarrow> steps (bf_loop prog inp bm M s) \<le> M"
proof (induction prog inp bm M s rule: bf_loop.induct)
  case (1 prog inp bm M s)
  show ?case
  proof (cases "bf_running prog M s")
    case True
    then have "steps (bf_step prog inp bm s) \<le> M"
      using bf_running_steps[OF True] by (simp add: steps_bf_step bf_running_codePointer)
    with 1(1)[OF True] True show ?thesis by (simp add: bf_loop_run)
  next
    case False
    with 1(2) show ?thesis by (simp add: bf_loop_stop)
  qed
qed

lemma bf_loop_compose:
  "n \<le> M \<Longrightarrow> bf_loop prog inp bm M (bf_loop prog inp bm n s) = bf_loop prog inp bm M s"
proof (induction prog inp bm n s rule: bf_loop.induct)
  case (1 prog inp bm n s)
  show ?case
  proof (cases "bf_running prog n s")
    case True
    then have "bf_running prog M s" using 1(2) by (rule bf_running_mono)
    with 1(1)[OF True 1(2)] True show ?thesis by (simp add: bf_loop_run)
  next
    case False
    then show ?thesis by (simp add: bf_loop_stop)
  qed
qed

lemma bf_loop_funpow:
  "bf_loop prog inp bm M s = ((bf_step prog inp bm) ^^ (steps (bf_loop prog inp bm M s) - steps s)) s"
proof (induction prog inp bm M s rule: bf_loop.induct)
  case (1 prog inp bm M s)
  show ?case
  proof (cases "bf_running prog M s")
    case True
    let ?s' = "bf_step prog inp bm s"
    have st: "steps ?s' = Suc (steps s)" using True by (simp add: steps_bf_step bf_running_codePointer)
    have ge: "steps ?s' \<le> steps (bf_loop prog inp bm M ?s')" by (rule bf_loop_steps_ge)
    have eq: "bf_loop prog inp bm M s = bf_loop prog inp bm M ?s'" using True by (simp add: bf_loop_run)
    have "steps (bf_loop prog inp bm M ?s') - steps s = Suc (steps (bf_loop prog inp bm M ?s') - steps ?s')"
      using ge st by simp
    then show ?thesis using 1[OF True] eq by (simp add: funpow_swap1)
  next
    case False
    then show ?thesis by (simp add: bf_loop_stop)
  qed
qed

lemma bf_loop_prefix_steps:
  assumes "steps (bf_loop prog inp bm M s) = m" "N \<le> m" "steps s \<le> N"
  shows "steps (bf_loop prog inp bm N s) = N"
proof -
  let ?sN = "bf_loop prog inp bm N s"
  have mM: "m \<le> M \<or> m = steps s"
    using assms(1) bf_loop_steps_le[of s M prog inp bm] 
    by (cases "bf_running prog M s") (auto simp: bf_loop_stop dest: bf_running_steps)
  show ?thesis
  proof (cases "N \<le> M")
    case True
    have le: "steps ?sN \<le> N" using assms(3) by (rule bf_loop_steps_le)
    have nr: "\<not> bf_running prog N ?sN" by (rule bf_loop_final)
    show ?thesis
    proof (rule ccontr)
      assume "steps ?sN \<noteq> N"
      with le have lt: "steps ?sN < N" by simp
      with nr have "\<not> bf_running prog M ?sN" by (auto simp: bf_running_def)
      then have "bf_loop prog inp bm M ?sN = ?sN" by (rule bf_loop_stop)
      with bf_loop_compose[OF True, of prog inp bm s] have "bf_loop prog inp bm M s = ?sN" by simp
      with assms(1) lt assms(2) show False by simp
    qed
  next
    case False
    with mM assms have "N = steps s" by simp
    moreover have "steps s \<le> steps ?sN" by (rule bf_loop_steps_ge)
    moreover have "steps ?sN \<le> N" using assms(3) by (rule bf_loop_steps_le)
    ultimately show ?thesis by simp
  qed
qed

subsection \<open>The program \<open>+[+]\<close>\<close>

text \<open>The cell wraps from 255 to 0 on the 255th turn of the loop, so the program stops
  by itself after 512 instructions.\<close>

lemma plus_loop_map: "buildBracketMap ''+[+]'' 1 = Some 3" "buildBracketMap ''+[+]'' 3 = Some 1"
  by (simp_all add: buildBracketMap_def)

lemma plus_loop_pair:
  assumes cp: "codePointer s = Some 2" and c: "memory s (pointer s) = c"
  shows "bf_step ''+[+]'' inp (buildBracketMap ''+[+]'') (bf_step ''+[+]'' inp (buildBracketMap ''+[+]'') s)
         = s\<lparr>steps := steps s + 2, memory := (memory s)(pointer s := (c + 1) mod 256),
               codePointer := (if (c + 1) mod 256 = 0 then Some 4 else Some 2)\<rparr>"
  using cp c by (simp add: bf_step_def bf_command_def plus_loop_map Let_def)

lemma plus_loop_aux:
  assumes "codePointer s = Some 2" "memory s (pointer s) = c" "1 \<le> c" "c \<le> 255"
    "steps s + 2 * (256 - c) \<le> M" "n = 255 - c"
  shows "steps (bf_loop ''+[+]'' inp (buildBracketMap ''+[+]'') M s) = steps s + 2 * (256 - c)
       \<and> codePointer (bf_loop ''+[+]'' inp (buildBracketMap ''+[+]'') M s) = Some 4"
  using assms
proof (induction n arbitrary: s c)
  case 0
  let ?bm = "buildBracketMap ''+[+]''"
  let ?s1 = "bf_step ''+[+]'' inp ?bm s"
  let ?s2 = "bf_step ''+[+]'' inp ?bm ?s1"
  from 0 have c: "c = 255" by simp
  have r0: "bf_running ''+[+]'' M s" using 0 by (simp add: bf_running_def)
  have s1: "codePointer ?s1 = Some 3" "steps ?s1 = steps s + 1"
    using 0 by (simp_all add: bf_step_def bf_command_def Let_def)
  have r1: "bf_running ''+[+]'' M ?s1" using 0 s1 by (simp add: bf_running_def)
  have s2: "?s2 = s\<lparr>steps := steps s + 2, memory := (memory s)(pointer s := (c + 1) mod 256),
               codePointer := (if (c + 1) mod 256 = 0 then Some 4 else Some 2)\<rparr>"
    using 0(1,2) by (rule plus_loop_pair)
  have r2: "\<not> bf_running ''+[+]'' M ?s2" unfolding s2 using c by (simp add: bf_running_def)
  have "bf_loop ''+[+]'' inp ?bm M s = ?s2"
    using r0 r1 r2 by (simp add: bf_loop_run bf_loop_stop)
  then show ?case unfolding s2 using c by simp
next
  case (Suc n)
  let ?bm = "buildBracketMap ''+[+]''"
  let ?s1 = "bf_step ''+[+]'' inp ?bm s"
  let ?s2 = "bf_step ''+[+]'' inp ?bm ?s1"
  from Suc.prems have c: "c < 255" by simp
  have r0: "bf_running ''+[+]'' M s" using Suc.prems by (simp add: bf_running_def)
  have s1: "codePointer ?s1 = Some 3" "steps ?s1 = steps s + 1"
    using Suc.prems by (simp_all add: bf_step_def bf_command_def Let_def)
  have r1: "bf_running ''+[+]'' M ?s1" using Suc.prems s1 by (simp add: bf_running_def)
  have s2: "?s2 = s\<lparr>steps := steps s + 2, memory := (memory s)(pointer s := (c + 1) mod 256),
               codePointer := (if (c + 1) mod 256 = 0 then Some 4 else Some 2)\<rparr>"
    using Suc.prems(1,2) by (rule plus_loop_pair)
  have eq: "bf_loop ''+[+]'' inp ?bm M s = bf_loop ''+[+]'' inp ?bm M ?s2"
    using r0 r1 by (simp add: bf_loop_run)
  have "steps (bf_loop ''+[+]'' inp ?bm M ?s2) = steps ?s2 + 2 * (256 - (c + 1))
       \<and> codePointer (bf_loop ''+[+]'' inp ?bm M ?s2) = Some 4"
  proof (rule Suc.IH)
    show "codePointer ?s2 = Some 2" unfolding s2 using c by simp
    show "memory ?s2 (pointer ?s2) = c + 1" unfolding s2 using c by simp
    show "1 \<le> c + 1" by simp
    show "c + 1 \<le> 255" using c by simp
    show "steps ?s2 + 2 * (256 - (c + 1)) \<le> M" unfolding s2 using Suc.prems c by simp
    show "n = 255 - (c + 1)" using Suc.prems by simp
  qed
  moreover have "steps ?s2 = steps s + 2" unfolding s2 by simp
  ultimately show ?case using eq c by simp
qed

lemma plus_loop_halts:
  assumes "512 \<le> M"
  shows "steps (bf_run ''+[+]'' inp M) = 512 \<and> codePointer (bf_run ''+[+]'' inp M) = Some 4"
proof -
  let ?bm = "buildBracketMap ''+[+]''"
  let ?s1 = "bf_step ''+[+]'' inp ?bm bf_init"
  let ?s2 = "bf_step ''+[+]'' inp ?bm ?s1"
  have s1: "?s1 = bf_init\<lparr>steps := 1, memory := (\<lambda>_. 0)(0 := 1), codePointer := Some 1\<rparr>"
    by (simp add: bf_step_def bf_command_def bf_init_def Let_def)
  have s2: "?s2 = bf_init\<lparr>steps := 2, memory := (\<lambda>_. 0)(0 := 1), codePointer := Some 2\<rparr>"
    unfolding s1 by (simp add: bf_step_def bf_command_def bf_init_def Let_def)
  have r0: "bf_running ''+[+]'' M bf_init" using assms by (simp add: bf_running_def bf_init_def)
  have r1: "bf_running ''+[+]'' M ?s1" unfolding s1 using assms by (simp add: bf_running_def bf_init_def)
  have eq: "bf_run ''+[+]'' inp M = bf_loop ''+[+]'' inp ?bm M ?s2"
    unfolding bf_run_def using r0 r1 by (simp add: bf_loop_run)
  have "steps (bf_loop ''+[+]'' inp ?bm M ?s2) = steps ?s2 + 2 * (256 - 1)
       \<and> codePointer (bf_loop ''+[+]'' inp ?bm M ?s2) = Some 4"
  proof (rule plus_loop_aux)
    show "codePointer ?s2 = Some 2" unfolding s2 by simp
    show "memory ?s2 (pointer ?s2) = 1" unfolding s2 by (simp add: bf_init_def)
    show "steps ?s2 + 2 * (256 - 1) \<le> M" unfolding s2 using assms by simp
    show "254 = 255 - (1::nat)" by simp
  qed simp_all
  moreover have "steps ?s2 = 2" unfolding s2 by simp
  ultimately show ?thesis using eq by simp
qed

lemma plus_loop_steps: "steps (bf_run ''+[+]'' inp N) = min N 512"
proof (cases "512 \<le> N")
  case True
  then show ?thesis using plus_loop_halts[of N inp] by simp
next
  case False
  have "steps (bf_loop ''+[+]'' inp (buildBracketMap ''+[+]'') 512 bf_init) = 512"
    using plus_loop_halts[of 512 inp] by (simp add: bf_run_def)
  then have "steps (bf_loop ''+[+]'' inp (buildBracketMap ''+[+]'') N bf_init) = N"
    by (rule bf_loop_prefix_steps) (use False in \<open>simp_all add: bf_init_def\<close>)
  with False show ?thesis by (simp add: bf_run_def)
qed

section \<open>Claims about the interpreter\<close>

text \<open>
  C1.  When the run reaches, with budget left, a \<open>[\<close> on a zero cell or a \<open>]\<close> on a
  non-zero cell that has no entry in the bracket map, the loop stops after that one
  instruction and \<open>executeBrainfuck\<close> returns the output accumulated up to there.
\<close>

theorem unmatched_bracket_halts:
  assumes reach: "s = bf_run prog inp n" and budget: "n < maxSteps"
    and cp: "codePointer s = Some cp" "cp < length prog"
    and unmatched: "buildBracketMap prog cp = None"
    and jump: "(prog ! cp = CHR ''['' \<and> memory s (pointer s) = 0)
             \<or> (prog ! cp = CHR '']'' \<and> memory s (pointer s) \<noteq> 0)"
  shows "bf_run prog inp maxSteps = s\<lparr>steps := steps s + 1, codePointer := None\<rparr>
       \<and> executeBrainfuck prog inp maxSteps = output s"
proof -
  let ?bm = "buildBracketMap prog"
  have "steps s \<le> n"
    unfolding reach bf_run_def by (rule bf_loop_steps_le) (simp add: bf_init_def)
  with budget cp have run: "bf_running prog maxSteps s"
    by (simp add: bf_running_def)
  have step: "bf_step prog inp ?bm s = s\<lparr>steps := steps s + 1, codePointer := None\<rparr>"
    using cp unmatched jump by (auto simp: bf_step_def bf_command_def Let_def)
  have stop: "\<not> bf_running prog maxSteps (s\<lparr>steps := steps s + 1, codePointer := None\<rparr>)"
    by (simp add: bf_running_def)
  have "bf_run prog inp maxSteps = bf_loop prog inp ?bm maxSteps s"
    unfolding reach bf_run_def using budget by (simp add: bf_loop_compose)
  also have "\<dots> = s\<lparr>steps := steps s + 1, codePointer := None\<rparr>"
    using run stop step by (simp add: bf_loop_run bf_loop_stop)
  finally show ?thesis by (simp add: executeBrainfuck_def)
qed

lemma run3: "bf_run ''+.-['' [] 3 =
    \<lparr>memory = (\<lambda>_. 0)(0 := 0), pointer = 0, codePointer = Some 3, inputPointer = 0,
     output = [1], steps = 3\<rparr>"
  by (simp add: bf_run_def buildBracketMap_def bf_loop.simps bf_running_def bf_step_def
        bf_command_def bf_init_def memory_length_def)

theorem unmatched_bracket_halts_witness:
  "bf_run ''+.-['' [] 10 = (bf_run ''+.-['' [] 3)\<lparr>steps := 4, codePointer := None\<rparr>
   \<and> executeBrainfuck ''+.-['' [] 10 = [1]"
  using unmatched_bracket_halts [of "bf_run ''+.-['' [] 3" "''+.-[''" "[]" 3 10 3]
  by (simp add: run3 buildBracketMap_def)

text \<open>
  C2 (as amended).  For every program, input and step budget the interpreter loop
  terminates; the state it ends in is the state after exactly \<open>steps\<close> executed
  instructions, \<open>steps\<close> is at most \<open>maxSteps\<close>, the loop condition no longer holds
  there, and the output of that state is what \<open>executeBrainfuck\<close> returns.  The program
  \<open>+[+]\<close> is not an endless loop: with budget \<open>N\<close> it executes \<open>min N 512\<close> instructions.
\<close>

theorem execute_within_budget:
  "steps (bf_run prog inp maxSteps) \<le> maxSteps
   \<and> bf_run prog inp maxSteps =
       (bf_step prog inp (buildBracketMap prog) ^^ steps (bf_run prog inp maxSteps)) bf_init
   \<and> bf_running prog maxSteps (bf_run prog inp maxSteps) = False
   \<and> executeBrainfuck prog inp maxSteps = output (bf_run prog inp maxSteps)
   \<and> steps (bf_run ''+[+]'' inp N) = min N 512"
proof -
  have "steps (bf_run prog inp maxSteps) \<le> maxSteps"
    unfolding bf_run_def by (rule bf_loop_steps_le) (simp add: bf_init_def)
  moreover have "bf_run prog inp maxSteps =
       (bf_step prog inp (buildBracketMap prog) ^^ steps (bf_run prog inp maxSteps)) bf_init"
    unfolding bf_run_def
    using bf_loop_funpow[of prog inp "buildBracketMap prog" maxSteps bf_init]
    by (simp add: bf_init_def)
  moreover have "bf_running prog maxSteps (bf_run prog inp maxSteps) = False"
    unfolding bf_run_def by (simp add: bf_loop_final)
  ultimately show ?thesis
    by (simp add: executeBrainfuck_def plus_loop_steps)
qed

text \<open>The claim as written fails at \<open>N = 1000\<close>: the run of \<open>+[+]\<close> has left the program
  after 512 instructions, not 1000.\<close>

theorem plus_loop_counterexample:
  "steps (bf_run ''+[+]'' [] 1000) = 512 \<and> steps (bf_run ''+[+]'' [] 1000) \<noteq> 1000
   \<and> codePointer (bf_run ''+[+]'' [] 1000) = Some (length ''+[+]'')"
  using plus_loop_halts [of 1000 "[]"] by simp

section \<open>Facts about the random source and evaluation\<close>

subsection \<open>Draws\<close>

lemma floor_random_less: "0 < n \<Longrightarrow> floor_random rnd k n < n"
proof -
  assume n: "0 < n"
  have "Math_random rnd k * of_int n < 1 * of_int n"
    using n Math_random_bounds(2) [of rnd k] by (intro mult_strict_right_mono) simp_all
  then show ?thesis by (simp add: floor_random_def floor_less_iff)
qed

lemma nat_floor_random_less: "0 < n \<Longrightarrow> nat (floor_random rnd k (int n)) < n"
  using floor_random_less [of "int n" rnd k] floor_random_nonneg [of "int n" rnd k] by simp

subsection \<open>evaluateIndividual\<close>

lemma run_cases_eq:
  "run_cases prog cases res outs n =
     (res @ map (\<lambda>tc. executeBrainfuck prog (input tc) 10000 = expected tc) cases,
      outs @ map (\<lambda>tc. executeBrainfuck prog (input tc) 10000) cases,
      n + length (filter (\<lambda>tc. executeBrainfuck prog (input tc) 10000 = expected tc) cases))"
  by (induction cases arbitrary: res outs n) (simp_all add: Let_def)

lemma code_evaluateIndividual [simp]: "code (evaluateIndividual ga prog) = prog"
  by (simp add: evaluateIndividual_def run_cases_eq Let_def)

lemma trainAccuracy_evaluateIndividual:
  "trainAccuracy (evaluateIndividual ga prog) =
     (if trainCases ga = [] then 0
      else 100 * (real (length (filter (\<lambda>tc. executeBrainfuck prog (input tc) 10000 = expected tc)
                                  (trainCases ga)))
                  / real (length (trainCases ga))))"
  by (simp add: evaluateIndividual_def run_cases_eq Let_def)

lemma testAccuracy_evaluateIndividual:
  "testAccuracy (evaluateIndividual ga prog) =
     (if testCases ga = [] then 0
      else 100 * (real (length (filter (\<lambda>tc. executeBrainfuck prog (input tc) 10000 = expected tc)
                                  (testCases ga)))
                  / real (length (testCases ga))))"
  by (simp add: evaluateIndividual_def run_cases_eq Let_def)

lemma fitness_evaluateIndividual:
  "fitness (evaluateIndividual ga prog) =
     max 0 (trainAccuracy (evaluateIndividual ga prog) - min (real (length prog) * 0.1) 5)"
  by (simp add: evaluateIndividual_def run_cases_eq Let_def)

lemma trainAccuracy_le_100: "trainAccuracy (evaluateIndividual ga prog) \<le> 100"
proof (cases "trainCases ga = []")
  case True
  then show ?thesis by (simp add: trainAccuracy_evaluateIndividual)
next
  case False
  let ?p = "length (filter (\<lambda>tc. executeBrainfuck prog (input tc) 10000 = expected tc) (trainCases ga))"
  have "real ?p \<le> real (length (trainCases ga))" by simp
  moreover have "0 < real (length (trainCases ga))" using False by simp
  ultimately have "real ?p / real (length (trainCases ga)) \<le> 1" by (simp add: divide_le_eq_1)
  then have "100 * (real ?p / real (length (trainCases ga))) \<le> 100" by linarith
  with False show ?thesis by (simp only: trainAccuracy_evaluateIndividual if_False)
qed

text \<open>
  C3.  The individual that \<open>evaluateIndividual\<close> returns has as train (test) accuracy
  100 times the share of the train (test) cases whose output equals the expected one,
  and 0 when there is no such case; its fitness is the train accuracy less the length
  penalty \<open>min (length * 0.1) 5\<close>, cut off at 0 from below; so the fitness lies between
  0 and 100.
\<close>

theorem evaluate_accuracy_fitness:
  "trainAccuracy (evaluateIndividual ga prog) =
     (if trainCases ga = [] then 0
      else 100 * (real (length (filter (\<lambda>tc. executeBrainfuck prog (input tc) 10000 = expected tc)
                                  (trainCases ga)))
                  / real (length (trainCases ga))))
   \<and> testAccuracy (evaluateIndividual ga prog) =
     (if testCases ga = [] then 0
      else 100 * (real (length (filter (\<lambda>tc. executeBrainfuck prog (input tc) 10000 = expected tc)
                                  (testCases ga)))
                  / real (length (testCases ga))))
   \<and> fitness (evaluateIndividual ga prog) =
       max 0 (trainAccuracy (evaluateIndividual ga prog) - min (real (length prog) * 0.1) 5)
   \<and> 0 \<le> fitness (evaluateIndividual ga prog)
   \<and> fitness (evaluateIndividual ga prog) \<le> 100"
proof -
  have "min (real (length prog) * 0.1) 5 \<ge> 0" by simp
  then have "fitness (evaluateIndividual ga prog) \<le> 100"
    using trainAccuracy_le_100 [of ga prog] by (simp add: fitness_evaluateIndividual)
  moreover have "0 \<le> fitness (evaluateIndividual ga prog)"
    by (simp add: fitness_evaluateIndividual)
  ultimately show ?thesis
    using trainAccuracy_evaluateIndividual [of ga prog] testAccuracy_evaluateIndividual [of ga prog]
      fitness_evaluateIndividual [of ga prog]
    by simp
qed

text \<open>
  C8.  \<open>hasPerfectSolution\<close> is true exactly when the population is not empty, the train
  accuracy of its first individual (the one \<open>getBestIndividual\<close> returns) is 100 and
  either there are no test cases or its test accuracy is 100.
\<close>

theorem hasPerfectSolution_iff:
  "hasPerfectSolution ga =
     (case population ga of
        [] \<Rightarrow> False
      | best # others \<Rightarrow>
          trainAccuracy best = 100 \<and> (testCases ga = [] \<or> testAccuracy best = 100))"
  by (cases "population ga") (simp_all add: hasPerfectSolution_def getBestIndividual_def)

section \<open>Facts about mutation and crossover\<close>

lemma mutateProgram_nonempty: "fst (mutateProgram rnd program rate maxLength k) \<noteq> []"
  by (simp add: mutateProgram_def Let_def split: prod.splits)

lemma interleavePrograms_nonempty: "fst (interleavePrograms rnd prog1 prog2 k) \<noteq> []"
  by (simp add: interleavePrograms_def split: prod.splits)

lemma interleavePrograms_result_nonempty:
  "interleavePrograms rnd prog1 prog2 k = (child, k') \<Longrightarrow> child \<noteq> []"
  using interleavePrograms_nonempty [of rnd prog1 prog2 k] by simp

lemma two_point_end_less:
  assumes "parent \<noteq> []" and start: "start = floor_random rnd k (int (length parent))"
  shows "nat (min (start + floor_random rnd k' (int (length parent) - start)) (int (length parent)))
         < length parent"
proof -
  have len: "0 < int (length parent)" using assms(1) by simp
  have lt: "start < int (length parent)" unfolding start using len by (rule floor_random_less)
  have ge: "0 \<le> start" unfolding start by (rule floor_random_nonneg) simp
  have "floor_random rnd k' (int (length parent) - start) < int (length parent) - start"
    using lt by (intro floor_random_less) simp
  moreover have "0 \<le> floor_random rnd k' (int (length parent) - start)"
    using lt by (intro floor_random_nonneg) simp
  ultimately show ?thesis using ge by linarith
qed

lemma crossoverPrograms_nonempty:
  assumes "parent1 \<noteq> []" "parent2 \<noteq> []"
  shows "fst (fst (crossoverPrograms rnd parent1 parent2 k)) \<noteq> []
       \<and> snd (fst (crossoverPrograms rnd parent1 parent2 k)) \<noteq> []"
proof -
  have sp: "nat (floor_random rnd (k + 1) (int (length parent1))) < length parent1"
    "nat (floor_random rnd (k + 2) (int (length parent2))) < length parent2"
    using assms by (simp_all add: nat_floor_random_less)
  have tp: "nat (min (floor_random rnd (k + 1) (int (length parent1))
                 + floor_random rnd (k + 2)
                     (int (length parent1) - floor_random rnd (k + 1) (int (length parent1))))
               (int (length parent1))) < length parent1"
    "nat (min (floor_random rnd (k + 3) (int (length parent2))
                 + floor_random rnd (k + 4)
                     (int (length parent2) - floor_random rnd (k + 3) (int (length parent2))))
               (int (length parent2))) < length parent2"
    using two_point_end_less [OF assms(1) refl, of rnd "k + 1" "k + 2"]
      two_point_end_less [OF assms(2) refl, of rnd "k + 3" "k + 4"]
    by blast+
  let ?t = "Math_random rnd k"
  consider (single) "?t < 0.4" | (twopoint) "\<not> ?t < 0.4" "?t < 0.7"
    | (merge) "\<not> ?t < 0.4" "\<not> ?t < 0.7" "?t < 0.85"
    | (uniform) "\<not> ?t < 0.4" "\<not> ?t < 0.7" "\<not> ?t < 0.85"
    by blast
  then show ?thesis
  proof cases
    case single
    have "drop (nat (floor_random rnd (k + 2) (int (length parent2)))) parent2 \<noteq> []"
      "drop (nat (floor_random rnd (k + 1) (int (length parent1)))) parent1 \<noteq> []"
      using sp by simp_all
    with assms single show ?thesis
      by (simp only: crossoverPrograms_def Let_def list.size length_0_conv if_False if_True
            simp_thms fst_conv snd_conv append_is_Nil_conv)
  next
    case twopoint
    have "drop (nat (min (floor_random rnd (k + 1) (int (length parent1))
                 + floor_random rnd (k + 2)
                     (int (length parent1) - floor_random rnd (k + 1) (int (length parent1))))
               (int (length parent1)))) parent1 \<noteq> []"
      "drop (nat (min (floor_random rnd (k + 3) (int (length parent2))
                 + floor_random rnd (k + 4)
                     (int (length parent2) - floor_random rnd (k + 3) (int (length parent2))))
               (int (length parent2)))) parent2 \<noteq> []"
      using tp by simp_all
    with assms twopoint show ?thesis
      by (simp only: crossoverPrograms_def Let_def list.size length_0_conv if_False if_True
            simp_thms fst_conv snd_conv append_is_Nil_conv)
  next
    case merge
    with assms show ?thesis
      by (auto simp: crossoverPrograms_def Let_def split: prod.splits
            dest: interleavePrograms_result_nonempty)
  next
    case uniform
    with assms show ?thesis
      by (simp add: crossoverPrograms_def Let_def split: prod.splits)
  qed
qed

text \<open>
  C9.  \<open>mutateProgram\<close> never returns the empty program, whatever the rate, the maximal
  length and the draws; and both children that \<open>crossoverPrograms\<close> returns for two
  non-empty parents are non-empty, whichever strategy the draws select.
\<close>

theorem mutate_crossover_nonempty:
  "fst (mutateProgram rnd program rate maxLength k) \<noteq> []
   \<and> (parent1 \<noteq> [] \<and> parent2 \<noteq> [] \<longrightarrow>
        fst (fst (crossoverPrograms rnd parent1 parent2 k)) \<noteq> []
        \<and> snd (fst (crossoverPrograms rnd parent1 parent2 k)) \<noteq> [])"
  using mutateProgram_nonempty crossoverPrograms_nonempty by blast

theorem mutate_crossover_nonempty_witness:
  "fst (mutateProgram zero_draws ''+>'' 0 100 0) \<noteq> []
   \<and> fst (fst (crossoverPrograms zero_draws ''+>'' ''-'' 0)) \<noteq> []
   \<and> snd (fst (crossoverPrograms zero_draws ''+>'' ''-'' 0)) \<noteq> []"
  using mutate_crossover_nonempty [of zero_draws "''+>''" 0 100 0 "''+>''" "''-''"] by simp

section \<open>Invariants of the population\<close>

lemma sorted_desc_sortPopulation: "sorted_desc (sortPopulation pop)"
proof -
  have "sorted (map (\<lambda>ind. - fitness ind) (sort_key (\<lambda>ind. - fitness ind) pop))"
    by (rule sorted_sort_key)
  then show ?thesis by (simp add: sorted_desc_def sortPopulation_def sorted_wrt_map)
qed

lemma length_sortPopulation [simp]: "length (sortPopulation pop) = length pop"
  by (simp add: sortPopulation_def)

lemma set_sortPopulation [simp]: "set (sortPopulation pop) = set pop"
  by (simp add: sortPopulation_def)

lemma distinct_code_sortPopulation:
  "distinct (map code (sortPopulation pop)) = distinct (map code pop)"
  by (simp add: distinct_map sortPopulation_def)

lemma distinct_code_take: "distinct (map code pop) \<Longrightarrow> distinct (map code (take n pop))"
  by (simp add: take_map [symmetric])

lemma unique_codes_add:
  "unique_codes pop uniqueCodes \<Longrightarrow> c \<notin> uniqueCodes
   \<Longrightarrow> unique_codes (pop @ [evaluateIndividual ga c]) (insert c uniqueCodes)"
  by (auto simp: unique_codes_def)

lemma unique_codes_take_elite:
  "distinct (map code pop) \<Longrightarrow> unique_codes (take n pop) (set (map code (take n pop)))"
  by (simp add: unique_codes_def distinct_code_take)

subsection \<open>add_child and the offspring loop\<close>

lemma add_child_cases:
  "add_child ga c (pop, codes) = (pop, codes) \<and> c \<in> codes
   \<or> add_child ga c (pop, codes) = (pop @ [evaluateIndividual ga c], insert c codes) \<and> c \<notin> codes"
  by (simp add: add_child_def)

lemma add_child_prefix: "prefix (fst x) (fst (add_child ga c x))"
  by (cases x) (simp add: add_child_def)

lemma add_child_length: "length (fst (add_child ga c x)) \<le> Suc (length (fst x))"
  by (cases x) (simp add: add_child_def)

lemma add_child_unique:
  "unique_codes (fst x) (snd x) \<Longrightarrow> unique_codes (fst (add_child ga c x)) (snd (add_child ga c x))"
  by (cases x) (simp add: add_child_def unique_codes_add)

lemma offspring_attempt_result:
  assumes "offspring_attempt rnd ga x k = Inr (x', k')"
  shows "\<exists>c1 c2. x' = add_child ga c1 x
          \<or> (length (fst (add_child ga c1 x)) < populationSize (settings ga)
              \<and> x' = add_child ga c2 (add_child ga c1 x))"
  using assms
  by (auto simp: offspring_attempt_def Let_def split: sum.splits option.splits prod.splits if_splits)

lemma offspring_attempt_facts:
  assumes "offspring_attempt rnd ga x k = Inr (x', k')"
  shows "prefix (fst x) (fst x')"
    and "unique_codes (fst x) (snd x) \<Longrightarrow> unique_codes (fst x') (snd x')"
    and "length (fst x) < populationSize (settings ga) \<Longrightarrow> length (fst x') \<le> populationSize (settings ga)"
proof -
  from offspring_attempt_result [OF assms] obtain c1 c2 where
    r: "x' = add_child ga c1 x
        \<or> (length (fst (add_child ga c1 x)) < populationSize (settings ga)
            \<and> x' = add_child ga c2 (add_child ga c1 x))"
    by blast
  show "prefix (fst x) (fst x')"
    using r add_child_prefix [of x ga c1] add_child_prefix [of "add_child ga c1 x" ga c2]
    by (auto intro: prefix_order.trans)
  show "unique_codes (fst x) (snd x) \<Longrightarrow> unique_codes (fst x') (snd x')"
    using r by (auto intro: add_child_unique)
  show "length (fst x) < populationSize (settings ga) \<Longrightarrow> length (fst x') \<le> populationSize (settings ga)"
    using r add_child_length [of ga c1 x] add_child_length [of ga c2 "add_child ga c1 x"]
    by auto
qed

lemma offspring_loop_facts:
  assumes "offspring_loop rnd ga x attempts k = Inr (x', attempts', k')"
  shows "prefix (fst x) (fst x')
       \<and> (unique_codes (fst x) (snd x) \<longrightarrow> unique_codes (fst x') (snd x'))
       \<and> (length (fst x) \<le> populationSize (settings ga)
            \<longrightarrow> length (fst x') \<le> populationSize (settings ga))
       \<and> (attempts \<le> populationSize (settings ga) * 10
            \<longrightarrow> attempts' \<le> populationSize (settings ga) * 10)"
  using assms
proof (induction rnd ga x attempts k rule: offspring_loop.induct)
  case (1 rnd ga x attempts k)
  let ?N = "populationSize (settings ga)"
  show ?case
  proof (cases "length (fst x) < ?N \<and> attempts < ?N * 10")
    case True
    with 1(2) obtain x1 k1 where att: "offspring_attempt rnd ga x k = Inr (x1, k1)"
      and rest: "offspring_loop rnd ga x1 (attempts + 1) k1 = Inr (x', attempts', k')"
      by (subst (asm) offspring_loop.simps) (auto split: sum.splits)
    have IH: "prefix (fst x1) (fst x')
       \<and> (unique_codes (fst x1) (snd x1) \<longrightarrow> unique_codes (fst x') (snd x'))
       \<and> (length (fst x1) \<le> ?N \<longrightarrow> length (fst x') \<le> ?N)
       \<and> (attempts + 1 \<le> ?N * 10 \<longrightarrow> attempts' \<le> ?N * 10)"
      using 1(1) [OF True att refl rest] .
    from offspring_attempt_facts [OF att] True IH show ?thesis
      by (auto intro: prefix_order.trans)
  next
    case False
    with 1(2) have "x' = x" "attempts' = attempts"
      by (subst (asm) offspring_loop.simps, simp)+
    then show ?thesis by simp
  qed
qed

subsection \<open>The fill loop of evolve\<close>

lemma fill_step_facts:
  "prefix (fst x) (fst (fill_step rnd ga x))"
  "length (fst (fill_step rnd ga x)) \<le> Suc (length (fst x))"
  "unique_codes (fst x) (fst (snd x))
   \<Longrightarrow> unique_codes (fst (fill_step rnd ga x)) (fst (snd (fill_step rnd ga x)))"
  by (cases x; simp add: fill_step_def Let_def unique_codes_add split: prod.splits)+

lemma fill_loop_invariant:
  assumes run: "fill_loop rnd ga x = Some y"
    and init: "I rnd ga x"
    and step: "\<And>rnd ga x. I rnd ga x \<Longrightarrow> length (fst x) < populationSize (settings ga)
                 \<Longrightarrow> I rnd ga (fill_step rnd ga x)"
  shows "I rnd ga y \<and> \<not> length (fst y) < populationSize (settings ga)"
proof -
  let ?P = "\<lambda>rnd ga x y. I rnd ga x \<longrightarrow> I rnd ga y \<and> \<not> length (fst y) < populationSize (settings ga)"
  have "(case ((rnd, ga), x) of (a, b) \<Rightarrow> (case a of (r, g) \<Rightarrow> ?P r g) b) y"
  proof (rule fill_loop.raw_induct)
    show "(case ((rnd, ga), x) of (a, b) \<Rightarrow> (case a of (r, g) \<Rightarrow> fill_loop r g) b) = Some y"
      using run by simp
  next
    fix loop r g x' y'
    assume IH: "\<And>g x b y. loop g x b = Some y \<Longrightarrow> ?P g x b y"
      and eq: "(if length (fst x') < populationSize (settings g)
                then loop r g (fill_step r g x') else Some x') = Some y'"
    show "?P r g x' y'"
    proof (cases "length (fst x') < populationSize (settings g)")
      case True
      with eq have "loop r g (fill_step r g x') = Some y'" by simp
      then have "?P r g (fill_step r g x') y'" by (rule IH)
      with True step show ?thesis by blast
    next
      case False
      with eq show ?thesis by simp
    qed
  qed
  with init show ?thesis by simp
qed

lemma fill_loop_facts:
  assumes "fill_loop rnd ga x = Some y"
  shows "prefix (fst x) (fst y)"
    and "unique_codes (fst x) (fst (snd x)) \<Longrightarrow> unique_codes (fst y) (fst (snd y))"
    and "length (fst x) \<le> populationSize (settings ga) \<Longrightarrow> length (fst y) = populationSize (settings ga)"
    and "populationSize (settings ga) \<le> length (fst y)"
proof -
  have "prefix (fst x) (fst y) \<and> \<not> length (fst y) < populationSize (settings ga)"
    using assms
  proof (rule fill_loop_invariant [where I = "\<lambda>rnd ga z. prefix (fst x) (fst z)"])
    show "prefix (fst x) (fst x)" by simp
  next
    fix rnd and ga :: GeneticAlgorithm and z :: "Individual list \<times> string set \<times> nat"
    assume "prefix (fst x) (fst z)"
    then show "prefix (fst x) (fst (fill_step rnd ga z))"
      using fill_step_facts(1) [of z rnd ga] by (rule prefix_order.trans)
  qed
  then show "prefix (fst x) (fst y)" "populationSize (settings ga) \<le> length (fst y)" by simp_all
  show "unique_codes (fst y) (fst (snd y))" if "unique_codes (fst x) (fst (snd x))"
  proof -
    have "unique_codes (fst y) (fst (snd y)) \<and> \<not> length (fst y) < populationSize (settings ga)"
      using assms that
      by (rule fill_loop_invariant [where I = "\<lambda>rnd ga z. unique_codes (fst z) (fst (snd z))"])
         (rule fill_step_facts(3))
    then show ?thesis by simp
  qed
  show "length (fst y) = populationSize (settings ga)" if "length (fst x) \<le> populationSize (settings ga)"
  proof -
    have "length (fst y) \<le> populationSize (settings ga) \<and> \<not> length (fst y) < populationSize (settings ga)"
      using assms that
    proof (rule fill_loop_invariant [where I = "\<lambda>rnd ga z. length (fst z) \<le> populationSize (settings ga)"])
      fix rnd and ga :: GeneticAlgorithm and z :: "Individual list \<times> string set \<times> nat"
      assume "length (fst z) < populationSize (settings ga)"
      then show "length (fst (fill_step rnd ga z)) \<le> populationSize (settings ga)"
        using fill_step_facts(2) [of rnd ga z] by simp
    qed
    then show ?thesis by simp
  qed
qed

subsection \<open>The loops of initialize\<close>

lemma seed_loop_facts:
  assumes "seed_loop ga seeds pop codes n = (pop', codes')"
    and "unique_codes pop codes" and "length pop = n" and "n \<le> populationSize (settings ga)"
  shows "unique_codes pop' codes' \<and> length pop' \<le> populationSize (settings ga)"
  using assms
proof (induction seeds arbitrary: pop codes n)
  case Nil
  then show ?case by simp
next
  case (Cons seedCode rest)
  let ?N = "populationSize (settings ga)"
  show ?case
  proof (cases "int n \<ge> \<lfloor>real ?N * 0.3\<rfloor>")
    case True
    with Cons.prems show ?thesis by simp
  next
    case False
    then have "real n < real ?N * 0.3" by (simp add: not_le less_floor_iff)
    moreover have "real ?N * 0.3 \<le> real ?N" by simp
    ultimately have "real n < real ?N" by linarith
    then have n: "n + 1 \<le> ?N" by simp
    show ?thesis
    proof (cases "seedCode \<in> codes")
      case True
      with False Cons.prems have "seed_loop ga rest pop codes n = (pop', codes')" by simp
      then show ?thesis using Cons.prems(2-4) by (rule Cons.IH)
    next
      case notin: False
      with False Cons.prems have
        "seed_loop ga rest (pop @ [evaluateIndividual ga seedCode]) (insert seedCode codes) (n + 1)
         = (pop', codes')" by simp
      then show ?thesis
      proof (rule Cons.IH)
        show "unique_codes (pop @ [evaluateIndividual ga seedCode]) (insert seedCode codes)"
          using Cons.prems(2) notin by (rule unique_codes_add)
        show "length (pop @ [evaluateIndividual ga seedCode]) = n + 1" using Cons.prems(3) by simp
        show "n + 1 \<le> ?N" by (rule n)
      qed
    qed
  qed
qed

lemma initialize_step_facts:
  "prefix (fst x) (fst (initialize_step rnd ga x))"
  "length (fst (initialize_step rnd ga x)) \<le> Suc (length (fst x))"
  "unique_codes (fst x) (fst (snd x))
   \<Longrightarrow> unique_codes (fst (initialize_step rnd ga x)) (fst (snd (initialize_step rnd ga x)))"
  by (cases x; simp add: initialize_step_def Let_def unique_codes_add split: prod.splits)+

lemma initialize_loop_invariant:
  assumes run: "initialize_loop rnd ga x = Some y"
    and init: "I rnd ga x"
    and step: "\<And>rnd ga x. I rnd ga x \<Longrightarrow> length (fst x) < populationSize (settings ga)
                 \<Longrightarrow> I rnd ga (initialize_step rnd ga x)"
  shows "I rnd ga y \<and> \<not> length (fst y) < populationSize (settings ga)"
proof -
  let ?P = "\<lambda>rnd ga x y. I rnd ga x \<longrightarrow> I rnd ga y \<and> \<not> length (fst y) < populationSize (settings ga)"
  have "(case ((rnd, ga), x) of (a, b) \<Rightarrow> (case a of (r, g) \<Rightarrow> ?P r g) b) y"
  proof (rule initialize_loop.raw_induct)
    show "(case ((rnd, ga), x) of (a, b) \<Rightarrow> (case a of (r, g) \<Rightarrow> initialize_loop r g) b) = Some y"
      using run by simp
  next
    fix loop r g x' y'
    assume IH: "\<And>g x b y. loop g x b = Some y \<Longrightarrow> ?P g x b y"
      and eq: "(if length (fst x') < populationSize (settings g)
                then loop r g (initialize_step r g x') else Some x') = Some y'"
    show "?P r g x' y'"
    proof (cases "length (fst x') < populationSize (settings g)")
      case True
      with eq have "loop r g (initialize_step r g x') = Some y'" by simp
      then have "?P r g (initialize_step r g x') y'" by (rule IH)
      with True step show ?thesis by blast
    next
      case False
      with eq show ?thesis by simp
    qed
  qed
  with init show ?thesis by simp
qed

lemma initialize_loop_facts:
  assumes "initialize_loop rnd ga x = Some y"
  shows "unique_codes (fst x) (fst (snd x)) \<Longrightarrow> unique_codes (fst y) (fst (snd y))"
    and "length (fst x) \<le> populationSize (settings ga) \<Longrightarrow> length (fst y) = populationSize (settings ga)"
proof -
  show "unique_codes (fst y) (fst (snd y))" if "unique_codes (fst x) (fst (snd x))"
  proof -
    have "unique_codes (fst y) (fst (snd y)) \<and> \<not> length (fst y) < populationSize (settings ga)"
      using assms that
      by (rule initialize_loop_invariant [where I = "\<lambda>rnd ga z. unique_codes (fst z) (fst (snd z))"])
         (rule initialize_step_facts(3))
    then show ?thesis by simp
  qed
  show "length (fst y) = populationSize (settings ga)" if "length (fst x) \<le> populationSize (settings ga)"
  proof -
    have "length (fst y) \<le> populationSize (settings ga) \<and> \<not> length (fst y) < populationSize (settings ga)"
      using assms that
    proof (rule initialize_loop_invariant
        [where I = "\<lambda>rnd ga z. length (fst z) \<le> populationSize (settings ga)"])
      fix rnd and ga :: GeneticAlgorithm and z :: "Individual list \<times> string set \<times> nat"
      assume "length (fst z) < populationSize (settings ga)"
      then show "length (fst (initialize_step rnd ga z)) \<le> populationSize (settings ga)"
        using initialize_step_facts(2) [of rnd ga z] by simp
    qed
    then show ?thesis by simp
  qed
qed

subsection \<open>What initialize and evolve establish\<close>

lemma set_prefix_take: "prefix a b \<Longrightarrow> length a \<le> n \<Longrightarrow> set a \<subseteq> set (take n b)"
  by (auto simp: prefix_def)

lemma initialize_result:
  assumes "initialize rnd ga k = Some (ga', k')"
  shows "settings ga' = settings ga"
    and "length (population ga') = populationSize (settings ga)"
    and "sorted_desc (population ga')"
    and "distinct (map code (population ga'))"
proof -
  obtain seeded codes where seed: "seed_loop ga (seedGenomes ga) [] {} 0 = (seeded, codes)"
    by (cases "seed_loop ga (seedGenomes ga) [] {} 0")
  with assms obtain pop codes' where loop: "initialize_loop rnd ga (seeded, codes, k) = Some (pop, codes', k')"
    and ga': "ga' = ga\<lparr>population := sortPopulation pop, generation := 0\<rparr>"
    by (auto simp: initialize_def split: option.splits)
  have s: "unique_codes seeded codes \<and> length seeded \<le> populationSize (settings ga)"
    using seed by (rule seed_loop_facts) (simp_all add: unique_codes_def)
  from initialize_loop_facts [OF loop] s
  have "unique_codes pop codes'" "length pop = populationSize (settings ga)" by simp_all
  then show "settings ga' = settings ga" "length (population ga') = populationSize (settings ga)"
    "sorted_desc (population ga')" "distinct (map code (population ga'))"
    unfolding ga' by (simp_all add: sorted_desc_sortPopulation distinct_code_sortPopulation unique_codes_def)
qed

lemma evolve_result:
  assumes "evolve rnd ga k = Some (Inr (ga', k'))"
  shows "settings ga' = settings ga"
    and "length (population ga') = populationSize (settings ga)"
    and "sorted_desc (population ga')"
    and "distinct (map code (population ga)) \<Longrightarrow> distinct (map code (population ga'))"
    and "elitism (settings ga) \<le> populationSize (settings ga)
         \<Longrightarrow> set (take (elitism (settings ga)) (population ga)) \<subseteq> set (population ga')"
proof -
  let ?N = "populationSize (settings ga)"
  let ?elite = "take (elitism (settings ga)) (population ga)"
  from assms obtain offspring codes attempts k1 newPopulation codes' where
    off: "offspring_loop rnd ga (?elite, set (map code ?elite)) 0 k = Inr ((offspring, codes), attempts, k1)"
    and fill: "fill_loop rnd ga (offspring, codes, k1) = Some (newPopulation, codes', k')"
    and ga': "ga' = ga\<lparr>population := sortPopulation (take ?N newPopulation),
                        generation := generation ga + 1\<rparr>"
    by (auto simp: evolve_def Let_def split: sum.splits option.splits prod.splits)
  from offspring_loop_facts [OF off] have o:
    "prefix ?elite offspring"
    "unique_codes ?elite (set (map code ?elite)) \<longrightarrow> unique_codes offspring codes"
    by simp_all
  from fill_loop_facts [OF fill] have f:
    "prefix offspring newPopulation" "?N \<le> length newPopulation"
    "unique_codes offspring codes \<Longrightarrow> unique_codes newPopulation codes'"
    by simp_all
  show "settings ga' = settings ga" unfolding ga' by simp
  show "length (population ga') = ?N" unfolding ga' using f(2) by simp
  show "sorted_desc (population ga')" unfolding ga' by (simp add: sorted_desc_sortPopulation)
  show "distinct (map code (population ga'))" if "distinct (map code (population ga))"
  proof -
    have "unique_codes ?elite (set (map code ?elite))" using that by (rule unique_codes_take_elite)
    with o f have "unique_codes newPopulation codes'" by simp
    then show ?thesis
      unfolding ga' by (simp add: distinct_code_sortPopulation distinct_code_take unique_codes_def)
  qed
  show "set ?elite \<subseteq> set (population ga')" if "elitism (settings ga) \<le> ?N"
  proof -
    have "prefix ?elite newPopulation" using o(1) f(1) by (rule prefix_order.trans)
    moreover have "length ?elite \<le> ?N" using that by simp
    ultimately have "set ?elite \<subseteq> set (take ?N newPopulation)" by (rule set_prefix_take)
    then show ?thesis unfolding ga' by simp
  qed
qed

section \<open>Runs on the sample inputs\<close>

lemma Math_random_draws_of: "0 \<le> f k \<Longrightarrow> f k < 1 \<Longrightarrow> Math_random (draws_of f) k = f k"
  by (simp add: Math_random_def draws_of_def Abs_unit_interval_inverse)

lemma Math_random_sample: "Math_random sample_draws k = (if k < 9 then 0 else 1 / 2)"
  by (simp add: sample_draws_def Math_random_draws_of)

lemma Math_random_zero: "Math_random zero_draws k = 0"
  by (simp add: zero_draws_def Math_random_draws_of)

lemmas generate_loop_numeral =
  generate_loop.simps(2) [where n = "pred_numeral m", folded numeral_eq_Suc] for m

lemmas tournament_loop_numeral =
  tournament_loop.simps(2) [where n = "pred_numeral m", folded numeral_eq_Suc] for m

lemma sample_generate:
  "generateRandomProgram sample_draws 5 100 2 = (''>>>>>'', 7)"
  "generateRandomProgram sample_draws 5 100 9 = (''-----'', 14)"
  "generateRandomProgram zero_draws 5 100 1 = (''>>>>>'', 6)"
  by (simp_all add: generateRandomProgram_def generate_loop_numeral floor_random_def
        Math_random_sample Math_random_zero commands_def Let_def cong: let_weak_cong)

lemma sample_generate_Suc:
  "generateRandomProgram sample_draws 5 100 (Suc (Suc 0)) = (''>>>>>'', 7)"
  "generateRandomProgram zero_draws 5 100 (Suc 0) = (''>>>>>'', 6)"
  using sample_generate(1,3) by (simp_all add: numeral_2_eq_2)

lemma sample_execute:
  "executeBrainfuck ''>>>>>'' inp 10000 = []"
  "executeBrainfuck ''-----'' inp 10000 = []"
  by (simp_all add: executeBrainfuck_def bf_run_def buildBracketMap_def bf_loop.simps
        bf_running_def bf_step_def bf_command_def bf_init_def memory_length_def Let_def
        cong: let_weak_cong)

lemma sample_evaluate:
  "trainCases ga = [\<lparr> input = [1], expected = [] \<rparr>] \<Longrightarrow> testCases ga = []
   \<Longrightarrow> evaluateIndividual ga ''>>>>>'' = sample_individual ''>>>>>''"
  "trainCases ga = [\<lparr> input = [1], expected = [] \<rparr>] \<Longrightarrow> testCases ga = []
   \<Longrightarrow> evaluateIndividual ga ''-----'' = sample_individual ''-----''"
  by (simp_all add: evaluateIndividual_def run_cases_eq sample_execute sample_individual_def)


lemma sample_ga_fields:
  "settings sample_ga = sample_settings" "trainCases sample_ga = [\<lparr> input = [1], expected = [] \<rparr>]"
  "testCases sample_ga = []" "seedGenomes sample_ga = []" "population sample_ga = []"
  "generation sample_ga = 0"
  by (simp_all add: sample_ga_def constructor_def)

lemma sample_generation_fields:
  "settings sample_generation = sample_settings"
  "trainCases sample_generation = [\<lparr> input = [1], expected = [] \<rparr>]"
  "testCases sample_generation = []"
  "population sample_generation = [sample_individual ''>>>>>'', sample_individual ''-----'']"
  "generation sample_generation = 0"
  by (simp_all add: sample_generation_def sample_ga_fields)

lemma sample_settings_fields:
  "populationSize sample_settings = 2" "mutationRate sample_settings = 0"
  "crossoverRate sample_settings = 0" "elitism sample_settings = 1"
  "maxProgramLength sample_settings = 100"
  by (simp_all add: sample_settings_def)

lemma sample_sort:
  "sortPopulation [sample_individual ''>>>>>'', sample_individual ''-----'']
   = [sample_individual ''>>>>>'', sample_individual ''-----'']"
  by (simp add: sortPopulation_def sample_individual_def)

lemma sample_initialize_steps:
  "initialize_step sample_draws sample_ga ([], {}, 0) = ([sample_individual ''>>>>>''], {''>>>>>''}, 7)"
  "initialize_step sample_draws sample_ga ([sample_individual ''>>>>>''], {''>>>>>''}, 7)
   = ([sample_individual ''>>>>>'', sample_individual ''-----''], {''-----'', ''>>>>>''}, 14)"
  by (simp_all add: initialize_step_def initial_length_def Math_random_sample floor_random_def
        sample_ga_fields sample_settings_fields sample_generate sample_generate_Suc
        sample_evaluate)

lemma sample_initialize: "initialize sample_draws sample_ga 0 = Some (sample_generation, 14)"
  by (simp add: initialize_def sample_ga_fields initialize_loop.simps sample_settings_fields
        sample_initialize_steps sample_sort sample_generation_def)

lemma sample_tournament:
  "tournamentSelection sample_draws sample_generation 14 = Inr (Some (sample_individual ''-----''), 17)"
  "tournamentSelection sample_draws sample_generation 17 = Inr (Some (sample_individual ''-----''), 20)"
  by (simp_all add: tournamentSelection_def tournament_loop_numeral population_at_def
        floor_random_def Math_random_sample sample_generation_fields)

lemma sample_mutate:
  "mutateProgram sample_draws ''-----'' 0 100 21 = (''-----'', 28)"
  "mutateProgram sample_draws ''-----'' 0 100 28 = (''-----'', 35)"
  by (simp_all add: mutateProgram_def mutate_growth_def mutate_shrink_def Math_random_sample
        Let_def cong: let_weak_cong)

lemma sample_code [simp]: "code (sample_individual prog) = prog"
  by (simp add: sample_individual_def)

lemma sample_offspring_attempt:
  "offspring_attempt sample_draws sample_generation ([sample_individual ''>>>>>''], {''>>>>>''}) 14
   = Inr (([sample_individual ''>>>>>'', sample_individual ''-----''], {''-----'', ''>>>>>''}), 35)"
  by (simp add: offspring_attempt_def sample_tournament Math_random_sample sample_generation_fields
        sample_settings_fields sample_mutate add_child_def sample_evaluate Let_def
        cong: let_weak_cong)

lemma sample_offspring_loop:
  "offspring_loop sample_draws sample_generation ([sample_individual ''>>>>>''], {''>>>>>''}) 0 14
   = Inr (([sample_individual ''>>>>>'', sample_individual ''-----''], {''-----'', ''>>>>>''}), 1, 35)"
  by (simp add: offspring_loop.simps sample_offspring_attempt sample_generation_fields
        sample_settings_fields)

lemma sample_evolve:
  "evolve sample_draws sample_generation 14 = Some (Inr (sample_generation\<lparr>generation := 1\<rparr>, 35))"
proof -
  have "evolve sample_draws sample_generation 14
        = Some (Inr (sample_generation
                       \<lparr>population := [sample_individual ''>>>>>'', sample_individual ''-----''],
                        generation := 1\<rparr>, 35))"
    by (simp add: evolve_def sample_generation_fields sample_settings_fields sample_offspring_loop
          fill_loop.simps sample_sort Let_def cong: let_weak_cong)
  then show ?thesis by (simp add: sample_generation_def)
qed

lemma sample_fill_steps:
  "fill_step zero_draws sample_generation ([sample_individual ''>>>>>''], {''>>>>>''}, 0)
   = ([sample_individual ''>>>>>''], {''>>>>>''}, 6)"
  "fill_step zero_draws sample_generation ([sample_individual ''-----''], {''-----''}, 0)
   = ([sample_individual ''-----'', sample_individual ''>>>>>''], {''>>>>>'', ''-----''}, 6)"
  by (simp_all add: fill_step_def floor_random_def Math_random_zero sample_generation_fields
        sample_settings_fields sample_generate_Suc sample_evaluate Let_def cong: let_weak_cong)

lemma sample_fill_loop:
  "fill_loop zero_draws sample_generation ([sample_individual ''-----''], {''-----''}, 0)
   = Some ([sample_individual ''-----'', sample_individual ''>>>>>''], {''>>>>>'', ''-----''}, 6)"
  by (simp add: fill_loop.simps sample_fill_steps sample_generation_fields sample_settings_fields)

section \<open>Claims about the genetic algorithm\<close>

text \<open>
  C4.  When \<open>initialize\<close> returns, and when \<open>evolve\<close> returns, the population has exactly
  \<open>populationSize\<close> individuals and is sorted by fitness, the highest first.  This holds
  from every object and for all settings, so for every generation of a sequence of
  \<open>evolve\<close> calls.
\<close>

theorem population_size_and_order:
  "(initialize rnd ga k = Some (ga', k') \<longrightarrow>
      length (population ga') = populationSize (settings ga') \<and> sorted_desc (population ga'))
   \<and> (evolve rnd ga k = Some (Inr (ga'', k'')) \<longrightarrow>
      length (population ga'') = populationSize (settings ga'') \<and> sorted_desc (population ga''))"
  using initialize_result(1-3) [of rnd ga k ga' k'] evolve_result(1-3) [of rnd ga k ga'' k'']
  by simp

theorem population_size_and_order_witness:
  "length (population sample_generation) = populationSize (settings sample_generation)
   \<and> sorted_desc (population sample_generation)
   \<and> length (population (sample_generation\<lparr>generation := 1\<rparr>))
       = populationSize (settings (sample_generation\<lparr>generation := 1\<rparr>))
   \<and> sorted_desc (population (sample_generation\<lparr>generation := 1\<rparr>))"
  using population_size_and_order [of sample_draws sample_ga 0 sample_generation 14]
    population_size_and_order
      [of sample_draws sample_generation 14 _ _ "sample_generation\<lparr>generation := 1\<rparr>" 35]
    sample_initialize sample_evolve
  by simp

text \<open>
  C5.  With \<open>0 < elitism \<le> populationSize\<close>, the first \<open>elitism\<close> individuals of the
  population, unchanged and so with their program and cached fitness, are among the
  individuals of the population that \<open>evolve\<close> returns; and the fitness of the best
  individual (the one \<open>getBestIndividual\<close> returns) does not decrease.
\<close>

theorem elitism_preserves_best:
  assumes "evolve rnd ga k = Some (Inr (ga', k'))"
    and "0 < elitism (settings ga)"
    and "elitism (settings ga) \<le> populationSize (settings ga)"
  shows "set (take (elitism (settings ga)) (population ga)) \<subseteq> set (population ga')
       \<and> (\<forall>best. getBestIndividual ga = Some best \<longrightarrow>
            (\<exists>best'. getBestIndividual ga' = Some best' \<and> fitness best \<le> fitness best'))"
proof -
  have elite: "set (take (elitism (settings ga)) (population ga)) \<subseteq> set (population ga')"
    using assms(1,3) by (rule evolve_result(5))
  have sorted: "sorted_desc (population ga')" using assms(1) by (rule evolve_result(3))
  have "\<exists>best'. getBestIndividual ga' = Some best' \<and> fitness best \<le> fitness best'"
    if best: "getBestIndividual ga = Some best" for best
  proof -
    from best have ne: "population ga \<noteq> []" and b: "best = hd (population ga)"
      by (auto simp: getBestIndividual_def hd_conv_nth split: if_splits)
    then have "best \<in> set (take (elitism (settings ga)) (population ga))"
      using assms(2) by (cases "population ga"; cases "elitism (settings ga)") simp_all
    with elite have mem: "best \<in> set (population ga')" by blast
    then obtain b' rest where pop: "population ga' = b' # rest" by (cases "population ga'") auto
    have "fitness best \<le> fitness b'"
      using mem sorted unfolding pop sorted_desc_def by auto
    moreover have "getBestIndividual ga' = Some b'" by (simp add: getBestIndividual_def pop)
    ultimately show ?thesis by blast
  qed
  with elite show ?thesis by blast
qed

theorem elitism_preserves_best_witness:
  "set (take (elitism (settings sample_generation)) (population sample_generation))
     \<subseteq> set (population (sample_generation\<lparr>generation := 1\<rparr>))
   \<and> getBestIndividual sample_generation = Some (sample_individual ''>>>>>'')
   \<and> (\<exists>best'. getBestIndividual (sample_generation\<lparr>generation := 1\<rparr>) = Some best'
                \<and> fitness (sample_individual ''>>>>>'') \<le> fitness best')"
proof -
  have best: "getBestIndividual sample_generation = Some (sample_individual ''>>>>>'')"
    by (simp add: getBestIndividual_def sample_generation_fields)
  have "set (take (elitism (settings sample_generation)) (population sample_generation))
     \<subseteq> set (population (sample_generation\<lparr>generation := 1\<rparr>))
   \<and> (\<forall>best. getBestIndividual sample_generation = Some best \<longrightarrow>
        (\<exists>best'. getBestIndividual (sample_generation\<lparr>generation := 1\<rparr>) = Some best'
                 \<and> fitness best \<le> fitness best'))"
    by (rule elitism_preserves_best [OF sample_evolve])
       (simp_all add: sample_generation_fields sample_settings_fields)
  with best show ?thesis by blast
qed

text \<open>
  C10.  In every object that the constructor and the public methods can produce, the
  program strings of the population are pairwise distinct.
\<close>

theorem population_codes_distinct:
  "reachable ga \<Longrightarrow> distinct (map code (population ga))"
proof (induction rule: reachable.induct)
  case (new s train test)
  show ?case by (simp add: constructor_def)
next
  case (initialize ga rnd k ga' k')
  from initialize(2) show ?case by (rule initialize_result(4))
next
  case (evolve ga rnd k ga' k')
  from evolve(2,3) show ?case by (rule evolve_result(4))
qed (simp_all add: updateSettings_def updateTrainCases_def updateTestCases_def setSeedGenomes_def
      clearSeedGenomes_def)

theorem population_codes_distinct_witness:
  "reachable (sample_generation\<lparr>generation := 1\<rparr>)
   \<and> distinct (map code (population (sample_generation\<lparr>generation := 1\<rparr>)))"
proof -
  have "reachable sample_ga" unfolding sample_ga_def by (rule reachable.new)
  then have "reachable sample_generation" using sample_initialize by (rule reachable.initialize)
  then have r: "reachable (sample_generation\<lparr>generation := 1\<rparr>)"
    using sample_evolve by (rule reachable.evolve)
  with population_codes_distinct [OF r] show ?thesis by simp
qed



subsection \<open>When the fill loop returns\<close>




subsection \<open>A run that uses up the attempts and then fills the slot\<close>

lemma Math_random_exhaust: "Math_random exhaust_draws k = (if k < 421 then 0 else 1 / 2)"
  by (simp add: exhaust_draws_def Math_random_draws_of)

lemma Math_random_not_negative: "(Math_random rnd k < 0) = False"
  using Math_random_bounds(1) [of rnd k] by simp

lemma exhaust_tournament:
  "k + 3 \<le> 421 \<Longrightarrow>
   tournamentSelection exhaust_draws sample_generation k
   = Inr (Some (sample_individual ''>>>>>''), k + 3)"
  by (simp add: tournamentSelection_def tournament_loop_numeral population_at_def
        floor_random_def Math_random_exhaust sample_generation_fields)

lemma mutate_rate_zero: "mutateProgram rnd ''>>>>>'' 0 100 k = (''>>>>>'', k + 7)"
  by (simp add: mutateProgram_def mutate_growth_def mutate_shrink_def Math_random_not_negative
        Let_def cong: let_weak_cong)

lemma exhaust_offspring_attempt:
  "k + 6 \<le> 421 \<Longrightarrow>
   offspring_attempt exhaust_draws sample_generation ([sample_individual ''>>>>>''], {''>>>>>''}) k
   = Inr (([sample_individual ''>>>>>''], {''>>>>>''}), k + 21)"
  by (simp add: offspring_attempt_def exhaust_tournament Math_random_not_negative
        sample_generation_fields sample_settings_fields mutate_rate_zero add_child_def Let_def
        cong: let_weak_cong)

lemma exhaust_offspring_loop_from:
  "n = 20 - attempts \<Longrightarrow> attempts \<le> 20 \<Longrightarrow> k = 21 * attempts \<Longrightarrow>
   offspring_loop exhaust_draws sample_generation
     ([sample_individual ''>>>>>''], {''>>>>>''}) attempts k
   = Inr (([sample_individual ''>>>>>''], {''>>>>>''}), 20, 420)"
proof (induction n arbitrary: attempts k)
  case 0
  then have "attempts = 20" "k = 420" by simp_all
  then show ?case
    by (subst offspring_loop.simps) (simp add: sample_generation_fields sample_settings_fields)
next
  case (Suc n)
  then have lt: "attempts < 20" and n: "n = 20 - (attempts + 1)" "attempts + 1 \<le> 20"
    "k + 21 = 21 * (attempts + 1)" and k: "k + 6 \<le> 421"
    by simp_all
  have "offspring_loop exhaust_draws sample_generation
       ([sample_individual ''>>>>>''], {''>>>>>''}) (attempts + 1) (k + 21)
     = Inr (([sample_individual ''>>>>>''], {''>>>>>''}), 20, 420)"
    using n by (rule Suc.IH)
  with lt show ?case
    by (subst offspring_loop.simps)
       (simp add: sample_generation_fields sample_settings_fields exhaust_offspring_attempt [OF k])
qed

lemma exhaust_offspring_loop:
  "offspring_loop exhaust_draws sample_generation ([sample_individual ''>>>>>''], {''>>>>>''}) 0 0
   = Inr (([sample_individual ''>>>>>''], {''>>>>>''}), 20, 420)"
  by (rule exhaust_offspring_loop_from [of 20]) simp_all

lemma exhaust_generate: "generateRandomProgram exhaust_draws 5 100 421 = (''-----'', 426)"
  by (simp add: generateRandomProgram_def generate_loop_numeral floor_random_def
        Math_random_exhaust commands_def Let_def cong: let_weak_cong)

lemma exhaust_fill_step:
  "fill_step exhaust_draws sample_generation ([sample_individual ''>>>>>''], {''>>>>>''}, 420)
   = ([sample_individual ''>>>>>'', sample_individual ''-----''], {''-----'', ''>>>>>''}, 426)"
  by (simp add: fill_step_def floor_random_def Math_random_exhaust sample_generation_fields
        sample_settings_fields exhaust_generate sample_evaluate Let_def cong: let_weak_cong)

lemma exhaust_fill_loop:
  "fill_loop exhaust_draws sample_generation ([sample_individual ''>>>>>''], {''>>>>>''}, 420)
   = Some ([sample_individual ''>>>>>'', sample_individual ''-----''], {''-----'', ''>>>>>''}, 426)"
  by (simp add: fill_loop.simps exhaust_fill_step sample_generation_fields sample_settings_fields)

lemma exhaust_evolve:
  "evolve exhaust_draws sample_generation 0 = Some (Inr (sample_generation\<lparr>generation := 1\<rparr>, 426))"
proof -
  have "evolve exhaust_draws sample_generation 0
        = Some (Inr (sample_generation
                       \<lparr>population := [sample_individual ''>>>>>'', sample_individual ''-----''],
                        generation := 1\<rparr>, 426))"
    by (simp add: evolve_def sample_generation_fields sample_settings_fields exhaust_offspring_loop
          exhaust_fill_loop sample_sort Let_def cong: let_weak_cong)
  then show ?thesis by (simp add: sample_generation_def)
qed




section \<open>Runs that never return\<close>

lemma generate_loop_commands:
  assumes "generate_loop rnd n program d k = (program', d', k')" "set program \<subseteq> set commands"
  shows "set program' \<subseteq> set commands"
  using assms
proof (induction n arbitrary: program d k)
  case 0
  then show ?case by simp
next
  case (Suc n)
  let ?avail = "if d = 0 then filter (\<lambda>cmd. cmd \<noteq> CHR '']'') commands else commands"
  let ?command = "?avail ! nat (floor_random rnd k (int (length ?avail)))"
  have "0 < length ?avail" by (simp add: commands_def)
  then have "nat (floor_random rnd k (int (length ?avail))) < length ?avail"
    by (rule nat_floor_random_less)
  then have "?command \<in> set ?avail" by (rule nth_mem)
  then have mem: "?command \<in> set commands" by (auto split: if_splits)
  from Suc.prems(1) have
    "generate_loop rnd n (program @ [?command])
       (if ?command = CHR ''['' then d + 1 else if ?command = CHR '']'' then d - 1 else d) (k + 1)
     = (program', d', k')"
    by (simp add: Let_def)
  then show ?case
    by (rule Suc.IH) (use Suc.prems(2) mem in simp)
qed

lemma close_brackets_commands:
  "set program \<subseteq> set commands \<Longrightarrow> set (close_brackets program d maxLength) \<subseteq> set commands"
  by (induction d arbitrary: program) (simp_all add: commands_def)

lemma generateRandomProgram_within:
  "length (fst (generateRandomProgram rnd len maxLength k)) \<le> maxLength"
  "set (fst (generateRandomProgram rnd len maxLength k)) \<subseteq> set commands"
proof -
  obtain program d k' where g: "generate_loop rnd (nat len) [] 0 k = (program, d, k')"
    by (cases "generate_loop rnd (nat len) [] 0 k")
  then have "set program \<subseteq> set commands" by (rule generate_loop_commands) simp
  then have c: "set (close_brackets program d maxLength) \<subseteq> set commands"
    by (rule close_brackets_commands)
  show "length (fst (generateRandomProgram rnd len maxLength k)) \<le> maxLength"
    by (simp add: generateRandomProgram_def g Let_def)
  show "set (fst (generateRandomProgram rnd len maxLength k)) \<subseteq> set commands"
    using c set_take_subset [of maxLength "close_brackets program d maxLength"]
    by (auto simp: generateRandomProgram_def g Let_def)
qed

lemma short_programs_card: "finite short_programs \<and> card short_programs \<le> 9"
proof -
  have sub: "short_programs \<subseteq> insert [] ((\<lambda>c. [c]) ` set commands)"
  proof
    fix c assume "c \<in> short_programs"
    then have "length c \<le> 1" "set c \<subseteq> set commands" by (simp_all add: short_programs_def)
    then show "c \<in> insert [] ((\<lambda>c. [c]) ` set commands)"
      by (cases c) auto
  qed
  have fin: "finite (insert [] ((\<lambda>c. [c]) ` set commands))" by simp
  have "card (insert [] ((\<lambda>c. [c]) ` set commands)) \<le> Suc (card ((\<lambda>c. [c]) ` set commands))"
    by (simp add: card_insert_if)
  also have "\<dots> \<le> Suc (card (set commands))" by (simp add: card_image_le)
  also have "\<dots> \<le> Suc (length commands)" by (simp add: card_length)
  also have "\<dots> = 9" by (simp add: commands_def)
  finally have "card (insert [] ((\<lambda>c. [c]) ` set commands)) \<le> 9" .
  with sub fin show ?thesis
    by (meson card_mono finite_subset order_trans)
qed

lemma narrow_invariant_step:
  assumes "narrow_invariant rnd ga x"
  shows "narrow_invariant rnd ga (initialize_step rnd ga x)"
proof -
  obtain pop codes k where x: "x = (pop, codes, k)" by (cases x)
  obtain c k' where g: "generateRandomProgram rnd (initial_length rnd (settings ga) k)
                          (maxProgramLength (settings ga)) (k + 2) = (c, k')"
    by (cases "generateRandomProgram rnd (initial_length rnd (settings ga) k)
                 (maxProgramLength (settings ga)) (k + 2)")
  from assms have inv: "maxProgramLength (settings ga) = 1" "populationSize (settings ga) = 50"
    "codes \<subseteq> short_programs" "length pop \<le> card codes"
    by (simp_all add: narrow_invariant_def x)
  have "length c \<le> maxProgramLength (settings ga)" "set c \<subseteq> set commands"
    using generateRandomProgram_within [of rnd "initial_length rnd (settings ga) k"
        "maxProgramLength (settings ga)" "k + 2"]
    unfolding g by simp_all
  then have "c \<in> short_programs" by (simp add: inv(1) short_programs_def)
  moreover have "finite codes" using inv(3) short_programs_card by (meson finite_subset)
  moreover have "initialize_step rnd ga x =
      (if c \<notin> codes then (pop @ [evaluateIndividual ga c], insert c codes, k')
       else (pop, codes, k'))"
    by (simp only: x initialize_step_def prod.case g)
  ultimately show ?thesis
    using inv by (simp add: narrow_invariant_def)
qed

lemma narrow_initialize_loop:
  assumes "narrow_invariant rnd ga x"
  shows "initialize_loop rnd ga x = None"
proof (cases "initialize_loop rnd ga x")
  case None
  then show ?thesis .
next
  case (Some y)
  then have "narrow_invariant rnd ga y \<and> \<not> length (fst y) < populationSize (settings ga)"
    using assms by (rule initialize_loop_invariant) (rule narrow_invariant_step)
  then have "fst (snd y) \<subseteq> short_programs" "length (fst y) \<le> card (fst (snd y))"
    "50 \<le> length (fst y)"
    by (simp_all add: narrow_invariant_def)
  moreover have "card (fst (snd y)) \<le> 9"
    using calculation(1) short_programs_card by (meson card_mono order_trans)
  ultimately show ?thesis by simp
qed

lemma narrow_initialize:
  "initialize rnd (constructor narrow_settings train test) k = None"
proof -
  let ?ga = "constructor narrow_settings train test"
  have "narrow_invariant rnd ?ga ([], {}, k)"
    by (simp add: narrow_invariant_def constructor_def narrow_settings_def)
  then have "initialize_loop rnd ?ga ([], {}, k) = None" by (rule narrow_initialize_loop)
  moreover have "seedGenomes ?ga = []" by (simp add: constructor_def)
  ultimately show ?thesis by (simp add: initialize_def)
qed

lemma zero_generate: "generateRandomProgram zero_draws 5 100 k = (''>>>>>'', k + 5)"
  by (simp add: generateRandomProgram_def generate_loop_numeral floor_random_def
        Math_random_zero commands_def Let_def cong: let_weak_cong)

lemma zero_tournament:
  "tournamentSelection zero_draws sample_generation k = Inr (Some (sample_individual ''>>>>>''), k + 3)"
  by (simp add: tournamentSelection_def tournament_loop_numeral population_at_def
        floor_random_def Math_random_zero sample_generation_fields)

lemma zero_mutate: "mutateProgram zero_draws ''>>>>>'' 0 100 k = (''>>>>>'', k + 7)"
  by (simp add: mutateProgram_def mutate_growth_def mutate_shrink_def Math_random_zero
        Let_def cong: let_weak_cong)

lemma zero_offspring_attempt:
  "offspring_attempt zero_draws sample_generation ([sample_individual ''>>>>>''], {''>>>>>''}) k
   = Inr (([sample_individual ''>>>>>''], {''>>>>>''}), k + 21)"
  by (simp add: offspring_attempt_def zero_tournament Math_random_zero sample_generation_fields
        sample_settings_fields zero_mutate add_child_def Let_def cong: let_weak_cong)

lemma zero_offspring_loop:
  "n = 20 - attempts \<Longrightarrow> attempts \<le> 20 \<Longrightarrow>
   \<exists>k'. offspring_loop zero_draws sample_generation
          ([sample_individual ''>>>>>''], {''>>>>>''}) attempts k
        = Inr (([sample_individual ''>>>>>''], {''>>>>>''}), 20, k')"
proof (induction n arbitrary: attempts k)
  case 0
  then have "attempts = 20" by simp
  then show ?case
    by (subst offspring_loop.simps) (simp add: sample_generation_fields sample_settings_fields)
next
  case (Suc n)
  then have lt: "attempts < 20" and n: "n = 20 - (attempts + 1)" "attempts + 1 \<le> 20" by simp_all
  from Suc.IH [OF n] obtain k' where
    "offspring_loop zero_draws sample_generation
       ([sample_individual ''>>>>>''], {''>>>>>''}) (attempts + 1) (k + 21)
     = Inr (([sample_individual ''>>>>>''], {''>>>>>''}), 20, k')"
    by blast
  with lt show ?case
    by (subst offspring_loop.simps)
       (simp add: sample_generation_fields sample_settings_fields zero_offspring_attempt)
qed

lemma zero_fill_step:
  "fill_step zero_draws sample_generation ([sample_individual ''>>>>>''], {''>>>>>''}, k)
   = ([sample_individual ''>>>>>''], {''>>>>>''}, k + 6)"
  by (simp add: fill_step_def floor_random_def Math_random_zero sample_generation_fields
        sample_settings_fields zero_generate Let_def cong: let_weak_cong)

lemma zero_fill_loop:
  "fill_loop zero_draws sample_generation ([sample_individual ''>>>>>''], {''>>>>>''}, k) = None"
proof (cases "fill_loop zero_draws sample_generation ([sample_individual ''>>>>>''], {''>>>>>''}, k)")
  case None
  then show ?thesis .
next
  case (Some y)
  let ?I = "\<lambda>rnd ga x. rnd = zero_draws \<and> ga = sample_generation
              \<and> fst x = [sample_individual ''>>>>>''] \<and> fst (snd x) = {''>>>>>''}"
  from Some have "?I zero_draws sample_generation y
      \<and> \<not> length (fst y) < populationSize (settings sample_generation)"
  proof (rule fill_loop_invariant [where I = ?I])
    show "?I zero_draws sample_generation ([sample_individual ''>>>>>''], {''>>>>>''}, k)" by simp
  next
    fix rnd and ga :: GeneticAlgorithm and x :: "Individual list \<times> string set \<times> nat"
    assume "?I rnd ga x"
    then obtain j where "rnd = zero_draws" "ga = sample_generation"
      "x = ([sample_individual ''>>>>>''], {''>>>>>''}, j)"
      by (cases x) auto
    then show "?I rnd ga (fill_step rnd ga x)" by (simp add: zero_fill_step)
  qed
  then have a: "fst y = [sample_individual ''>>>>>'']"
    and b: "\<not> length (fst y) < populationSize (settings sample_generation)"
    by blast+
  from b show ?thesis
    unfolding a by (simp add: sample_generation_fields sample_settings_fields)
qed

lemma zero_evolve: "evolve zero_draws sample_generation 0 = None"
proof -
  obtain k' where "offspring_loop zero_draws sample_generation
          ([sample_individual ''>>>>>''], {''>>>>>''}) 0 0
        = Inr (([sample_individual ''>>>>>''], {''>>>>>''}), 20, k')"
    using zero_offspring_loop [of 20 0 0] by auto
  then show ?thesis
    by (simp add: evolve_def sample_generation_fields sample_settings_fields zero_fill_loop
          Let_def cong: let_weak_cong)
qed

text \<open>
  C7.  Two calls that never return.  With the default settings of the application and
  programs of at most one symbol, \<open>initialize\<close> on a fresh object never returns,
  whatever the draws: at most nine distinct programs exist and its loop waits for fifty.
  With draws of 0 only, \<open>evolve\<close> on the sample generation uses up its twenty attempts
  on duplicates of the elite and then never leaves the loop that fills the remaining
  slot, which has no bound on its turns.
\<close>

theorem uniqueness_loops_never_return:
  "initialize rnd (constructor narrow_settings train test) k = None
   \<and> evolve zero_draws sample_generation 0 = None"
  using narrow_initialize zero_evolve by simp

end
